theory Spec2Isabelle
  imports Complex_Main "HOL-Library.Word" "HOL-Library.AList" "HOL-Library.Sublist"
begin

section \<open>Shared types\<close>

text \<open>
  A \<^verbatim>\<open>time.Time\<close> is the number of nanoseconds since Go's zero time; the zero value
  \<^verbatim>\<open>time.Time{}\<close> is \<open>0\<close>. A \<^verbatim>\<open>time.Duration\<close> is an \<^verbatim>\<open>int64\<close> count of
  nanoseconds, read with \<open>sint\<close>. \<^verbatim>\<open>Time.Sub\<close> saturates at the ends of the
  \<^verbatim>\<open>int64\<close> range, as the Go library documents. Identifiers (\<^verbatim>\<open>int64\<close>) are only
  compared and printed, so they are integers.
\<close>

type_synonym Time = int
type_synonym Duration = "64 word"

definition zeroTime :: Time where
  "zeroTime = 0"

definition IsZero :: "Time \<Rightarrow> bool" where
  "IsZero t = (t = zeroTime)"

definition maxDuration :: int where
  "maxDuration = 2 ^ 63 - 1"

definition minDuration :: int where
  "minDuration = - (2 ^ 63)"

definition Sub :: "Time \<Rightarrow> Time \<Rightarrow> Duration" where
  "Sub t u = (let d = t - u in
     if d > maxDuration then word_of_int maxDuration
     else if d < minDuration then word_of_int minDuration
     else word_of_int d)"

text \<open>\<^verbatim>\<open>rule/types.go\<close>: \<^verbatim>\<open>Prom\<close>, \<^verbatim>\<open>Rule\<close>, \<^verbatim>\<open>PromRules\<close>.\<close>

text \<open>
  Modelled from the spec: package \<^verbatim>\<open>common\<close> (the type \<^verbatim>\<open>Labels\<close> with \<^verbatim>\<open>FromMap\<close>
  and \<^verbatim>\<open>Map\<close>) is not among the sources; the specification describes labels as a
  string-to-string mapping, and that is the type used here, so that \<^verbatim>\<open>FromMap\<close> is the
  identity.
\<close>

type_synonym Labels = "string \<rightharpoonup> string"

record Prom =
  prom_ID :: int
  prom_URL :: string

record Rule =
  rule_ID :: int
  rule_PromID :: int
  rule_Expr :: string
  rule_Op :: string
  rule_Value :: string
  rule_For :: string
  rule_Labels :: Labels
  rule_Summary :: string
  rule_Description :: string

record PromRules =
  pr_Prom :: Prom
  pr_Rules :: "Rule list"

section \<open>The rule evaluator (engine/evaluator.go)\<close>

datatype RuleState = StateInactive | StatePending | StateFiring

record EvalRule =
  ID :: string
  PromID :: int
  Expr :: string
  For :: Duration
  Labels :: Labels
  Annotations :: "string \<rightharpoonup> string"
  State :: RuleState
  ActiveAt :: Time
  FiredAt :: Time
  LastValue :: real

text \<open>
  The result of \<^verbatim>\<open>QueryFunc\<close>: an error, or \<^verbatim>\<open>(hasValue, value, metricLabels)\<close> where
  the label map may be \<^verbatim>\<open>nil\<close>.
\<close>

datatype QueryResult = QueryError string | QueryOk bool real "Labels option"

text \<open>
  The evaluator holds its two callbacks as function values. Both act on the world outside
  the evaluator (the metrics backend, the webhook, the counters), so they take the world
  and return the new one; \<^verbatim>\<open>notifyFunc\<close> may be \<^verbatim>\<open>nil\<close>.
\<close>

record 'w RuleEvaluator =
  rules :: "EvalRule list"
  interval :: Duration
  queryFunc :: "string \<Rightarrow> 'w \<Rightarrow> QueryResult \<times> 'w"
  notifyFunc :: "(EvalRule \<Rightarrow> string \<Rightarrow> 'w \<Rightarrow> 'w) option"

definition UpdateRules :: "'w RuleEvaluator \<Rightarrow> EvalRule list \<Rightarrow> 'w RuleEvaluator" where
  "UpdateRules e rs = e\<lparr>rules := rs\<rparr>"

definition notify :: "'w RuleEvaluator \<Rightarrow> EvalRule \<Rightarrow> string \<Rightarrow> 'w \<Rightarrow> 'w" where
  "notify e rule state w = (case notifyFunc e of None \<Rightarrow> w | Some f \<Rightarrow> f rule state w)"

text \<open>
  \<^verbatim>\<open>updateRuleState\<close>, lines 159--196 (the variant with label merging). The rule is
  mutated through a pointer; the model returns the new rule and the new world.
\<close>

definition updateRuleState ::
  "'w RuleEvaluator \<Rightarrow> EvalRule \<Rightarrow> bool \<Rightarrow> real \<Rightarrow> Time \<Rightarrow> 'w \<Rightarrow> EvalRule \<times> 'w" where
  "updateRuleState e rule0 hasValue val now w =
    (let rule = rule0\<lparr>LastValue := val\<rparr> in
     case State rule of
       StateInactive \<Rightarrow>
         (if hasValue then (rule\<lparr>State := StatePending, ActiveAt := now\<rparr>, w)
          else (rule, w))
     | StatePending \<Rightarrow>
         (if \<not> hasValue then (rule\<lparr>State := StateInactive, ActiveAt := zeroTime\<rparr>, w)
          else if sint (For rule) \<le> sint (Sub now (ActiveAt rule)) then
            (let rule' = rule\<lparr>State := StateFiring, FiredAt := now\<rparr>
             in (rule', notify e rule' ''firing'' w))
          else (rule, w))
     | StateFiring \<Rightarrow>
         (if \<not> hasValue then
            (rule\<lparr>State := StateInactive, ActiveAt := zeroTime, FiredAt := zeroTime\<rparr>,
             notify e rule ''resolved'' w)
          else (rule, notify e rule ''firing'' w)))"

text \<open>
  The older variant of \<^verbatim>\<open>updateRuleState\<close> in the same file, lines 57--91: no value
  argument, and nothing is sent while a firing rule keeps firing.
\<close>

definition updateRuleState_v1 ::
  "'w RuleEvaluator \<Rightarrow> EvalRule \<Rightarrow> bool \<Rightarrow> Time \<Rightarrow> 'w \<Rightarrow> EvalRule \<times> 'w" where
  "updateRuleState_v1 e rule hasValue now w =
    (case State rule of
       StateInactive \<Rightarrow>
         (if hasValue then (rule\<lparr>State := StatePending, ActiveAt := now\<rparr>, w)
          else (rule, w))
     | StatePending \<Rightarrow>
         (if \<not> hasValue then (rule\<lparr>State := StateInactive, ActiveAt := zeroTime\<rparr>, w)
          else if sint (For rule) \<le> sint (Sub now (ActiveAt rule)) then
            (let rule' = rule\<lparr>State := StateFiring, FiredAt := now\<rparr>
             in (rule', notify e rule' ''firing'' w))
          else (rule, w))
     | StateFiring \<Rightarrow>
         (if \<not> hasValue then
            (rule\<lparr>State := StateInactive, ActiveAt := zeroTime, FiredAt := zeroTime\<rparr>,
             notify e rule ''resolved'' w)
          else (rule, w)))"

text \<open>
  The merge of lines 141--153: when the query has a value and a label map, the labels of
  the metric are laid over those of the rule.
\<close>

definition mergeLabels :: "EvalRule \<Rightarrow> bool \<Rightarrow> Labels option \<Rightarrow> EvalRule" where
  "mergeLabels rule hasValue metricLabels =
    (case metricLabels of
       Some ml \<Rightarrow> if hasValue then rule\<lparr>Labels := Labels rule ++ ml\<rparr> else rule
     | None \<Rightarrow> rule)"

text \<open>
  The body of the loop of \<^verbatim>\<open>evaluate\<close> (lines 133--156) for one rule: query, skip the
  rule on an error, merge the labels, advance the state machine.
\<close>

definition evaluateRule :: "'w RuleEvaluator \<Rightarrow> Time \<Rightarrow> EvalRule \<Rightarrow> 'w \<Rightarrow> EvalRule \<times> 'w" where
  "evaluateRule e now rule w =
    (case queryFunc e (Expr rule) w of
       (QueryError err, w1) \<Rightarrow> (rule, w1)
     | (QueryOk hasValue val metricLabels, w1) \<Rightarrow>
         updateRuleState e (mergeLabels rule hasValue metricLabels) hasValue val now w1)"

fun evaluateRules :: "'w RuleEvaluator \<Rightarrow> Time \<Rightarrow> EvalRule list \<Rightarrow> 'w \<Rightarrow> EvalRule list \<times> 'w" where
  "evaluateRules e now [] w = ([], w)"
| "evaluateRules e now (r # rs) w =
     (let (r', w1) = evaluateRule e now r w;
          (rs', w2) = evaluateRules e now rs w1
      in (r' # rs', w2))"

text \<open>\<^verbatim>\<open>evaluate\<close>: one tick at the time \<open>now\<close> read from the clock.\<close>

definition evaluate :: "'w RuleEvaluator \<Rightarrow> Time \<Rightarrow> 'w \<Rightarrow> 'w RuleEvaluator \<times> 'w" where
  "evaluate e now w = (let (rs, w') = evaluateRules e now (rules e) w in (e\<lparr>rules := rs\<rparr>, w'))"

section \<open>Printing integers, joining paths\<close>

text \<open>\<^verbatim>\<open>strconv.FormatInt(n, 10)\<close> and the verb \<^verbatim>\<open>%d\<close>: the decimal numeral.\<close>

definition digit :: "nat \<Rightarrow> char" where
  "digit d = ''0123456789'' ! d"

fun dec_nat :: "nat \<Rightarrow> string" where
  "dec_nat n = (if n < 10 then [digit n] else dec_nat (n div 10) @ [digit (n mod 10)])"

declare dec_nat.simps [simp del]

definition FormatInt :: "int \<Rightarrow> string" where
  "FormatInt i = (if i < 0 then CHR ''-'' # dec_nat (nat (- i)) else dec_nat (nat i))"

text \<open>
  \<^verbatim>\<open>filepath.Join\<close>: the non-empty elements, separated by a slash. The library then
  cleans the result (\<^verbatim>\<open>.\<close>, \<^verbatim>\<open>..\<close>, doubled slashes); the base directory is taken to be
  clean already, and the file system below ignores empty components.
\<close>

fun joinWith :: "string list \<Rightarrow> string" where
  "joinWith [] = []"
| "joinWith [x] = x"
| "joinWith (x # y # ys) = x @ CHR ''/'' # joinWith (y # ys)"

definition Join :: "string list \<Rightarrow> string" where
  "Join elems = joinWith (filter (\<lambda>e. e \<noteq> []) elems)"

section \<open>The file system under the rule store\<close>

text \<open>
  The calls of package \<^verbatim>\<open>os\<close> that the store makes act on this model of a file system:
  an association list from paths (lists of components, relative to one root) to nodes, in
  the order in which the entries were created. A file has its bytes, its modification time
  and whether it can be read; a directory has its modification time. Write permissions and
  full disks are not modelled, nor is the change of a directory's modification time when an
  entry is added to it.
\<close>

type_synonym path = "string list"

datatype node = File (content: string) (mtime: Time) (readable: bool) | Dir (mtime: Time)

type_synonym FS = "(path \<times> node) list"

datatype errno = ENOENT | ENOTDIR | EISDIR | EACCES

fun splitOn :: "char \<Rightarrow> string \<Rightarrow> string list" where
  "splitOn d [] = [[]]"
| "splitOn d (c # cs) =
     (if c = d then [] # splitOn d cs
      else (case splitOn d cs of [] \<Rightarrow> [[c]] | x # xs \<Rightarrow> (c # x) # xs))"

definition components :: "string \<Rightarrow> path" where
  "components s = filter (\<lambda>c. c \<noteq> []) (splitOn CHR ''/'' s)"

definition node_at :: "FS \<Rightarrow> path \<Rightarrow> node option" where
  "node_at fs p = (if p = [] then Some (Dir zeroTime) else map_of fs p)"

text \<open>Path resolution: every component on the way must be a directory.\<close>

fun resolve :: "FS \<Rightarrow> path \<Rightarrow> path \<Rightarrow> errno + node" where
  "resolve fs pre [] = (case node_at fs pre of None \<Rightarrow> Inl ENOENT | Some n \<Rightarrow> Inr n)"
| "resolve fs pre (c # cs) =
     (case node_at fs pre of
        None \<Rightarrow> Inl ENOENT
      | Some (File b t r) \<Rightarrow> Inl ENOTDIR
      | Some (Dir t) \<Rightarrow> resolve fs (pre @ [c]) cs)"

definition Stat :: "string \<Rightarrow> FS \<Rightarrow> errno + node" where
  "Stat s fs = resolve fs [] (components s)"

text \<open>
  \<^verbatim>\<open>os.MkdirAll\<close>: creates the directory and every missing parent; succeeds when the
  directory is already there; fails when a component on the way is a file (and then,
  every entry having its parent, nothing has been created).
\<close>

fun mkdirAll_from :: "Time \<Rightarrow> FS \<Rightarrow> path \<Rightarrow> path \<Rightarrow> errno + FS" where
  "mkdirAll_from now fs pre [] = Inr fs"
| "mkdirAll_from now fs pre (c # cs) =
     (case node_at fs (pre @ [c]) of
        Some (File b t r) \<Rightarrow> Inl ENOTDIR
      | Some (Dir t) \<Rightarrow> mkdirAll_from now fs (pre @ [c]) cs
      | None \<Rightarrow> mkdirAll_from now (AList.update (pre @ [c]) (Dir now) fs) (pre @ [c]) cs)"

definition MkdirAll :: "Time \<Rightarrow> string \<Rightarrow> FS \<Rightarrow> errno + FS" where
  "MkdirAll now s fs = (if s = [] then Inl ENOENT else mkdirAll_from now fs [] (components s))"

text \<open>
  \<^verbatim>\<open>os.WriteFile\<close>: the parent must be a directory and the target must not be one; the
  file is created (readable) or truncated and rewritten (its permissions kept).
\<close>

definition WriteFile :: "Time \<Rightarrow> string \<Rightarrow> string \<Rightarrow> FS \<Rightarrow> errno + FS" where
  "WriteFile now s bytes fs =
    (let p = components s in
     if p = [] then Inl EISDIR
     else (case resolve fs [] (butlast p) of
             Inl e \<Rightarrow> Inl e
           | Inr (File b t r) \<Rightarrow> Inl ENOTDIR
           | Inr (Dir t) \<Rightarrow>
               (case node_at fs p of
                  Some (Dir t') \<Rightarrow> Inl EISDIR
                | Some (File b' t' r') \<Rightarrow> Inr (AList.update p (File bytes now r') fs)
                | None \<Rightarrow> Inr (AList.update p (File bytes now True) fs))))"

definition ReadFile :: "string \<Rightarrow> FS \<Rightarrow> errno + string" where
  "ReadFile s fs =
    (case resolve fs [] (components s) of
       Inl e \<Rightarrow> Inl e
     | Inr (Dir t) \<Rightarrow> Inl EISDIR
     | Inr (File b t r) \<Rightarrow> if r then Inr b else Inl EACCES)"

record FileInfo =
  fi_Name :: string
  fi_IsDir :: bool
  fi_ModTime :: Time

definition info_of :: "path \<times> node \<Rightarrow> FileInfo" where
  "info_of e = \<lparr>fi_Name = last (fst e),
                fi_IsDir = (case snd e of Dir t \<Rightarrow> True | File b t r \<Rightarrow> False),
                fi_ModTime = mtime (snd e)\<rparr>"

text \<open>
  \<^verbatim>\<open>ioutil.ReadDir\<close>: the entries directly under a directory. (The library returns them
  by file name; they are then sorted again by the caller, with a sort that is not stable,
  so the listing order only decides between entries of equal modification time, which the
  source leaves open. The model lists them in the order of creation.)
\<close>

definition ReadDir :: "string \<Rightarrow> FS \<Rightarrow> errno + FileInfo list" where
  "ReadDir s fs =
    (let p = components s in
     case resolve fs [] p of
       Inl e \<Rightarrow> Inl e
     | Inr (File b t r) \<Rightarrow> Inl ENOTDIR
     | Inr (Dir t) \<Rightarrow> Inr (map info_of (filter (\<lambda>e. fst e \<noteq> [] \<and> butlast (fst e) = p) fs)))"

definition IsNotExist :: "errno \<Rightarrow> bool" where
  "IsNotExist e = (e = ENOENT)"

section \<open>Configuration, metrics, alerts and the outside world\<close>

text \<open>The fields of \<^verbatim>\<open>config.Config\<close> that the engine reads.\<close>

record Config =
  NotifyRetries :: int
  Gateway_URL :: string
  Gateway_NotifyPath :: string
  AuthToken :: string
  EvaluationInterval :: Duration
  ReloadInterval :: Duration

text \<open>
  \<^verbatim>\<open>engine.Metrics\<close>: the gauge by label and the four counters that the engine moves
  (the histogram and the manager gauge are never touched).
\<close>

record Metrics =
  RulesLoaded :: "string \<rightharpoonup> nat"
  NotificationsSent :: nat
  NotifyErrors :: nat
  ReloadSuccess :: nat
  ReloadErrors :: nat

record Alert =
  a_State :: string
  a_Labels :: Labels
  a_Annotations :: "string \<rightharpoonup> string"
  a_Value :: real
  a_ActiveAt :: string
  a_FiredAt :: string

record Request =
  req_Method :: string
  req_URL :: string
  req_Token :: string
  req_ContentType :: string
  req_Body :: string

datatype HttpResult = TransportError | Status int

text \<open>What the metrics backend answers to a query: an error or a value.\<close>

datatype PromValue = Vector "(Labels \<times> real) list" | Scalar real | OtherValue

datatype PromAnswer = ApiError string | ApiValue PromValue

text \<open>
  The world that the engine acts on: the files of the rule store, the metrics, the
  answers that the webhook will give to the coming requests (a request that finds none
  fails in transport), the requests sent so far, the answers that the metrics backend
  will give to the coming queries, and whether a panic has ended the process (what the
  model computes from a world that has panicked is no behaviour of the program).
\<close>

record World =
  disk :: FS
  metrics :: Metrics
  webhook :: "HttpResult list"
  posted :: "Request list"
  backend :: "PromAnswer list"
  panicked :: bool

section \<open>Library functions taken as parameters\<close>

text \<open>
  Functions of the Go library and of third-party packages that the code calls and whose
  results it only passes on. Every theorem below holds for any choice of them.
  \<^verbatim>\<open>ParseDuration\<close> returns an error or an \<^verbatim>\<open>int64\<close> duration; \<^verbatim>\<open>yaml_Marshal\<close> stands
  for \<^verbatim>\<open>Rules.Content\<close>, which builds the rule group and hands it to \<^verbatim>\<open>yaml.Marshal\<close>;
  \<^verbatim>\<open>FormatStamp\<close> is \<^verbatim>\<open>Format("20060102_150405")\<close>; \<^verbatim>\<open>api_NewClient\<close> is the check of
  the address that \<^verbatim>\<open>api.NewClient\<close> makes; \<^verbatim>\<open>Round2\<close> is
  \<^verbatim>\<open>math.Round(v*100)/100\<close> on \<^verbatim>\<open>float64\<close>; \<^verbatim>\<open>json_Marshal\<close> can fail (on a value that is
  not a number); \<^verbatim>\<open>http_NewRequest\<close> is the check of the address that
  \<^verbatim>\<open>http.NewRequest\<close> makes.
\<close>

type_synonym error = string

record Extern =
  ParseDuration :: "string \<Rightarrow> error + Duration"
  yaml_Marshal :: "Rule list \<Rightarrow> error + string"
  FormatStamp :: "Time \<Rightarrow> string"
  FormatRFC3339 :: "Time \<Rightarrow> string"
  Round2 :: "real \<Rightarrow> real"
  sha256_hex :: "string \<Rightarrow> string"
  api_NewClient :: "string \<Rightarrow> error option"
  json_Marshal :: "Alert list \<Rightarrow> error + string"
  http_NewRequest :: "string \<Rightarrow> error option"

section \<open>The rule store (rule/storage.go)\<close>

record Storage =
  baseDir :: string
  retentionDays :: int
  enableHistory :: bool

record RuleVersion =
  Version :: int
  ver_PromID :: int
  RuleCount :: int
  CreatedAt :: Time
  FilePath :: string
  Hash :: string

definition getCurrentPath :: "Storage \<Rightarrow> int \<Rightarrow> string" where
  "getCurrentPath s promID = Join [baseDir s, ''prom_'' @ FormatInt promID, ''current.yml'']"

definition getHistoryPath :: "Storage \<Rightarrow> int \<Rightarrow> string \<Rightarrow> string" where
  "getHistoryPath s promID timestamp =
     Join [baseDir s, ''prom_'' @ FormatInt promID, ''history'', ''rule_'' @ timestamp @ ''.yml'']"

definition getPromHistoryDir :: "Storage \<Rightarrow> int \<Rightarrow> string" where
  "getPromHistoryDir s promID = Join [baseDir s, ''prom_'' @ FormatInt promID, ''history'']"

text \<open>The path that \<^verbatim>\<open>SaveRule\<close> writes to (lines 40--46).\<close>

definition savePath :: "Extern \<Rightarrow> Storage \<Rightarrow> Time \<Rightarrow> int \<Rightarrow> string" where
  "savePath x s now promID =
     (if enableHistory s then getHistoryPath s promID (FormatStamp x now)
      else getCurrentPath s promID)"

text \<open>The last element of that path: the name of the file.\<close>

definition saveName :: "Extern \<Rightarrow> Storage \<Rightarrow> Time \<Rightarrow> string" where
  "saveName x s now =
     (if enableHistory s then ''rule_'' @ FormatStamp x now @ ''.yml'' else ''current.yml'')"

text \<open>
  The directory that \<^verbatim>\<open>SaveRule\<close> creates (line 49), with the slice expressions of the
  source: \<^verbatim>\<open>filepath[:len(filepath)-len(filepath[len(filepath)-1:])]\<close>.
\<close>

definition saveDir :: "string \<Rightarrow> string" where
  "saveDir filepath =
     take (length filepath - length (drop (length filepath - 1) filepath)) filepath"

text \<open>
  \<^verbatim>\<open>SaveRule\<close>. Slicing an empty path from index \<open>-1\<close> panics; the path is never empty,
  but the branch is kept.
\<close>

definition SaveRule :: "Extern \<Rightarrow> Storage \<Rightarrow> Time \<Rightarrow> int \<Rightarrow> string \<Rightarrow> FS \<Rightarrow> (error + string) \<times> FS" where
  "SaveRule x s now promID bytes fs =
    (let filepath = savePath x s now promID in
     if filepath = [] then (Inl ''panic: slice bounds out of range'', fs)
     else (case MkdirAll now (saveDir filepath) fs of
             Inl e \<Rightarrow> (Inl ''failed to create directory'', fs)
           | Inr fs1 \<Rightarrow>
               (case WriteFile now filepath bytes fs1 of
                  Inl e \<Rightarrow> (Inl ''failed to write file'', fs1)
                | Inr fs2 \<Rightarrow> (Inr filepath, fs2))))"

text \<open>
  The loop of \<^verbatim>\<open>ListVersions\<close> (lines 89--111) over the sorted entries, from index \<open>i\<close>.
\<close>

fun versionsFrom ::
  "Extern \<Rightarrow> string \<Rightarrow> int \<Rightarrow> int \<Rightarrow> FS \<Rightarrow> nat \<Rightarrow> FileInfo list \<Rightarrow> RuleVersion list \<Rightarrow> RuleVersion list" where
  "versionsFrom x historyDir promID limit fs i [] versions = versions"
| "versionsFrom x historyDir promID limit fs i (file # files) versions =
     (if int i \<ge> limit \<and> limit > 0 then versions
      else if fi_IsDir file then versionsFrom x historyDir promID limit fs (i + 1) files versions
      else (case ReadFile (Join [historyDir, fi_Name file]) fs of
              Inl e \<Rightarrow> versionsFrom x historyDir promID limit fs (i + 1) files versions
            | Inr bytes \<Rightarrow>
                versionsFrom x historyDir promID limit fs (i + 1) files
                  (versions @ [\<lparr>Version = int i + 1, ver_PromID = promID, RuleCount = 0,
                                CreatedAt = fi_ModTime file,
                                FilePath = Join [historyDir, fi_Name file],
                                Hash = sha256_hex x bytes\<rparr>])))"

text \<open>
  The entries by modification time, latest first (\<^verbatim>\<open>sort.Slice\<close> with \<^verbatim>\<open>After\<close>).
\<close>

definition sortByModTime :: "FileInfo list \<Rightarrow> FileInfo list" where
  "sortByModTime files = sort_key (\<lambda>f. - fi_ModTime f) files"

definition ListVersions :: "Extern \<Rightarrow> Storage \<Rightarrow> int \<Rightarrow> int \<Rightarrow> FS \<Rightarrow> error + RuleVersion list" where
  "ListVersions x s promID limit fs =
    (if \<not> enableHistory s then Inl ''history is disabled''
     else (let historyDir = getPromHistoryDir s promID in
           case ReadDir historyDir fs of
             Inl e \<Rightarrow> if IsNotExist e then Inr [] else Inl ''failed to read history directory''
           | Inr files \<Rightarrow>
               Inr (versionsFrom x historyDir promID limit fs 0 (sortByModTime files) [])))"

section \<open>The manager (engine, third part of evaluator.go)\<close>

definition isSpace :: "char \<Rightarrow> bool" where
  "isSpace c = (c \<in> set [CHR '' '', CHR 0x09, CHR 0x0A, CHR 0x0B, CHR 0x0C, CHR 0x0D])"

text \<open>\<^verbatim>\<open>strings.TrimSpace\<close>, on the white space of ASCII.\<close>

definition TrimSpace :: "string \<Rightarrow> string" where
  "TrimSpace s = rev (dropWhile isSpace (rev (dropWhile isSpace s)))"

text \<open>
  The body of the conversion loop of \<^verbatim>\<open>Manager.Update\<close> (lines 343--364). The error
  of \<^verbatim>\<open>time.ParseDuration\<close> is dropped; the duration that comes with an error is \<open>0\<close>.
\<close>

definition toEvalRule :: "Extern \<Rightarrow> Rule \<Rightarrow> EvalRule" where
  "toEvalRule x r =
    \<lparr>ID = FormatInt (rule_ID r),
     PromID = rule_PromID r,
     Expr = TrimSpace (rule_Expr r @ '' '' @ rule_Op r @ '' '' @ rule_Value r),
     For = (case ParseDuration x (rule_For r) of Inl err \<Rightarrow> 0 | Inr d \<Rightarrow> d),
     Labels = rule_Labels r,
     Annotations = [''rule_id'' \<mapsto> FormatInt (rule_ID r),
                    ''prom_id'' \<mapsto> FormatInt (rule_PromID r),
                    ''summary'' \<mapsto> rule_Summary r,
                    ''description'' \<mapsto> rule_Description r],
     State = StateInactive,
     ActiveAt = zeroTime,
     FiredAt = zeroTime,
     LastValue = 0\<rparr>"

text \<open>\<^verbatim>\<open>queryPrometheus\<close> (lines 387--415): the next answer of the backend, read.\<close>

definition queryPrometheus :: "string \<Rightarrow> World \<Rightarrow> QueryResult \<times> World" where
  "queryPrometheus expr w =
    (case backend w of
       [] \<Rightarrow> (QueryError ''no answer'', w)
     | a # as \<Rightarrow>
         ((case a of
             ApiError err \<Rightarrow> QueryError err
           | ApiValue (Vector []) \<Rightarrow> QueryOk False 0 None
           | ApiValue (Vector (sample # rest)) \<Rightarrow> QueryOk True (snd sample) (Some (fst sample))
           | ApiValue (Scalar v) \<Rightarrow> QueryOk True v None
           | ApiValue OtherValue \<Rightarrow> QueryOk False 0 None),
          w\<lparr>backend := as\<rparr>))"

text \<open>One request to the webhook: it is recorded, and the next answer is its result.\<close>

definition client_Do :: "Request \<Rightarrow> World \<Rightarrow> HttpResult \<times> World" where
  "client_Do req w =
    (case webhook w of
       [] \<Rightarrow> (TransportError, w\<lparr>posted := posted w @ [req]\<rparr>)
     | a # as \<Rightarrow> (a, w\<lparr>webhook := as, posted := posted w @ [req]\<rparr>))"

definition NotifyErrors_Inc :: "World \<Rightarrow> World" where
  "NotifyErrors_Inc w = w\<lparr>metrics := (metrics w)\<lparr>NotifyErrors := NotifyErrors (metrics w) + 1\<rparr>\<rparr>"

definition NotificationsSent_Add1 :: "World \<Rightarrow> World" where
  "NotificationsSent_Add1 w =
     w\<lparr>metrics := (metrics w)\<lparr>NotificationsSent := NotificationsSent (metrics w) + 1\<rparr>\<rparr>"

text \<open>
  The retry loop of \<^verbatim>\<open>sendNotification\<close> (lines 451--485), from attempt \<open>i\<close>. The
  counter is a Go \<^verbatim>\<open>int\<close>; it goes up to \<^verbatim>\<open>NotifyRetries + 1\<close> at most, which stays in
  range unless \<^verbatim>\<open>NotifyRetries\<close> is the largest \<^verbatim>\<open>int\<close>; the results below assume it is
  not. The error of \<^verbatim>\<open>http.NewRequest\<close> is dropped: when the address does not parse,
  the request is \<^verbatim>\<open>nil\<close> and setting its header panics.
\<close>

function notifyLoop :: "Extern \<Rightarrow> Config \<Rightarrow> Request \<Rightarrow> int \<Rightarrow> World \<Rightarrow> World" where
  "notifyLoop x cfg req i w =
    (if i \<le> NotifyRetries cfg then
       (case http_NewRequest x (req_URL req) of
          Some err \<Rightarrow> w\<lparr>panicked := True\<rparr>
        | None \<Rightarrow>
            (case client_Do req w of
               (TransportError, w1) \<Rightarrow> notifyLoop x cfg req (i + 1) (NotifyErrors_Inc w1)
             | (Status code, w1) \<Rightarrow>
                 if code = 200 then NotificationsSent_Add1 w1
                 else notifyLoop x cfg req (i + 1) (NotifyErrors_Inc w1)))
     else w)"
  by pat_completeness auto
termination
  by (relation "measure (\<lambda>(x, cfg, req, i, w). nat (NotifyRetries cfg + 1 - i))") auto

declare notifyLoop.simps [simp del]

definition makeAlert :: "Extern \<Rightarrow> EvalRule \<Rightarrow> string \<Rightarrow> Alert" where
  "makeAlert x rule state =
    \<lparr>a_State = state,
     a_Labels = Labels rule,
     a_Annotations = Annotations rule,
     a_Value = Round2 x (LastValue rule),
     a_ActiveAt = FormatRFC3339 x (ActiveAt rule),
     a_FiredAt = (if \<not> IsZero (FiredAt rule) then FormatRFC3339 x (FiredAt rule) else [])\<rparr>"

definition sendNotification :: "Extern \<Rightarrow> Config \<Rightarrow> EvalRule \<Rightarrow> string \<Rightarrow> World \<Rightarrow> World" where
  "sendNotification x cfg rule state w =
    (case json_Marshal x [makeAlert x rule state] of
       Inl err \<Rightarrow> NotifyErrors_Inc w
     | Inr data \<Rightarrow>
         notifyLoop x cfg
           \<lparr>req_Method = ''POST'', req_URL = Gateway_URL cfg @ Gateway_NotifyPath cfg,
            req_Token = AuthToken cfg, req_ContentType = ''application/json'',
            req_Body = data\<rparr> 1 w)"

text \<open>
  The older copy of the manager (the file \<^verbatim>\<open>part_002\<close>, lines 215--274) has the
  request commented out: each round of the loop prints the alert and counts a
  notification as sent.
\<close>

function notifyLoop_v1 :: "Config \<Rightarrow> int \<Rightarrow> World \<Rightarrow> World" where
  "notifyLoop_v1 cfg i w =
    (if i \<le> NotifyRetries cfg then notifyLoop_v1 cfg (i + 1) (NotificationsSent_Add1 w)
     else w)"
  by pat_completeness auto
termination
  by (relation "measure (\<lambda>(cfg, i, w). nat (NotifyRetries cfg + 1 - i))") auto

declare notifyLoop_v1.simps [simp del]

definition sendNotification_v1 :: "Config \<Rightarrow> EvalRule \<Rightarrow> string \<Rightarrow> World \<Rightarrow> World" where
  "sendNotification_v1 cfg rule state w = notifyLoop_v1 cfg 1 w"

record Manager =
  m_prom :: Prom
  m_rules :: "Rule list"
  m_config :: Config
  m_storage :: Storage
  m_evaluator :: "World RuleEvaluator"
  m_cancelled :: bool

definition NewManager :: "Extern \<Rightarrow> Config \<Rightarrow> Storage \<Rightarrow> Prom \<Rightarrow> error + Manager" where
  "NewManager x cfg st prom =
    (case api_NewClient x (prom_URL prom) of
       Some err \<Rightarrow> Inl (''failed to create prometheus client: '' @ err)
     | None \<Rightarrow>
         Inr \<lparr>m_prom = prom, m_rules = [], m_config = cfg, m_storage = st,
              m_evaluator = \<lparr>rules = [], interval = EvaluationInterval cfg,
                              queryFunc = queryPrometheus,
                              notifyFunc = Some (sendNotification x cfg)\<rparr>,
              m_cancelled = False\<rparr>)"

text \<open>
  \<^verbatim>\<open>Manager.Update\<close> (lines 321--375; the older copy of the manager has the same
  body). The result is the error, if any, the manager and the world.
\<close>

definition Manager_Update ::
  "Extern \<Rightarrow> Time \<Rightarrow> Rule list \<Rightarrow> Manager \<Rightarrow> World \<Rightarrow> error option \<times> Manager \<times> World" where
  "Manager_Update x now rs m0 w =
    (let m = m0\<lparr>m_rules := rs\<rparr> in
     case yaml_Marshal x rs of
       Inl err \<Rightarrow> (Some err, m, w)
     | Inr bytes \<Rightarrow>
         (case SaveRule x (m_storage m) now (prom_ID (m_prom m)) bytes (disk w) of
            (Inl err, fs1) \<Rightarrow> (Some err, m, w\<lparr>disk := fs1\<rparr>)
          | (Inr saved, fs1) \<Rightarrow>
              (let evalRules = map (toEvalRule x) rs in
               (None,
                m\<lparr>m_evaluator := UpdateRules (m_evaluator m) evalRules\<rparr>,
                w\<lparr>disk := fs1,
                  metrics := (metrics w)\<lparr>RulesLoaded :=
                    (RulesLoaded (metrics w))(FormatInt (prom_ID (m_prom m)) \<mapsto> length rs)\<rparr>\<rparr>))))"

section \<open>The reloader (engine, reloader)\<close>

text \<open>
  What a \<^verbatim>\<open>GET\<close> on the gateway gives: the request fails, the body does not decode, or
  it decodes to \<^verbatim>\<open>{code, msg, data}\<close>.
\<close>

datatype 'a Response = RequestFailed | DecodeFailed | Decoded int string 'a

definition fetchData :: "'a Response \<Rightarrow> error + 'a" where
  "fetchData resp =
    (case resp of
       RequestFailed \<Rightarrow> Inl ''request failed''
     | DecodeFailed \<Rightarrow> Inl ''decode failed''
     | Decoded code msg data \<Rightarrow> if code \<noteq> 0 then Inl (''api error: '' @ msg) else Inr data)"

text \<open>
  \<^verbatim>\<open>Rules.PromRules\<close> (rule/types.go): the rules by source. Go leaves the order of the
  groups open; the model lists them by first appearance.
\<close>

fun groupRules :: "Rule list \<Rightarrow> (int \<times> Rule list) list \<Rightarrow> (int \<times> Rule list) list" where
  "groupRules [] tmp = tmp"
| "groupRules (r # rs) tmp =
     groupRules rs
       (case map_of tmp (rule_PromID r) of
          Some v \<Rightarrow> AList.update (rule_PromID r) (v @ [r]) tmp
        | None \<Rightarrow> AList.update (rule_PromID r) [r] tmp)"

definition PromRules_of :: "Rule list \<Rightarrow> PromRules list" where
  "PromRules_of rs =
     map (\<lambda>g. \<lparr>pr_Prom = \<lparr>prom_ID = fst g, prom_URL = []\<rparr>, pr_Rules = snd g\<rparr>) (groupRules rs [])"

definition fillURL :: "Prom list \<Rightarrow> PromRules \<Rightarrow> PromRules" where
  "fillURL proms g =
    (case find (\<lambda>p. prom_ID (pr_Prom g) = prom_ID p) proms of
       None \<Rightarrow> g
     | Some p \<Rightarrow> g\<lparr>pr_Prom := (pr_Prom g)\<lparr>prom_URL := prom_URL p\<rparr>\<rparr>)"

definition fetchPromRules :: "Rule list Response \<Rightarrow> Prom list Response \<Rightarrow> error + PromRules list" where
  "fetchPromRules rulesResp promsResp =
    (case fetchData rulesResp of
       Inl err \<Rightarrow> Inl err
     | Inr rs \<Rightarrow>
         (case fetchData promsResp of
            Inl err \<Rightarrow> Inl err
          | Inr proms \<Rightarrow> Inr (map (fillURL proms) (PromRules_of rs))))"

record Reloader =
  r_config :: Config
  r_storage :: Storage
  r_managers :: "int \<rightharpoonup> Manager"
  r_running :: bool

definition NewReloader :: "Config \<Rightarrow> Storage \<Rightarrow> Reloader" where
  "NewReloader cfg st = \<lparr>r_config = cfg, r_storage = st, r_managers = Map.empty, r_running = False\<rparr>"

text \<open>The inner loop of the first sweep of \<^verbatim>\<open>Reloader.Update\<close> (lines 125--133).\<close>

definition shouldDelete :: "Manager \<Rightarrow> PromRules list \<Rightarrow> bool" where
  "shouldDelete manager promRules =
    (\<not> list_ex (\<lambda>pr. prom_ID (m_prom manager) = prom_ID (pr_Prom pr)
                    \<and> prom_URL (m_prom manager) = prom_URL (pr_Prom pr)
                    \<and> prom_URL (pr_Prom pr) \<noteq> []) promRules)"

text \<open>The first sweep (lines 124--143): the managers to delete are stopped and dropped.\<close>

definition sweepManagers :: "(int \<rightharpoonup> Manager) \<Rightarrow> PromRules list \<Rightarrow> (int \<rightharpoonup> Manager)" where
  "sweepManagers ms promRules =
    (\<lambda>id. case ms id of
            None \<Rightarrow> None
          | Some manager \<Rightarrow> if shouldDelete manager promRules then None else Some manager)"

text \<open>
  The body of the second loop (lines 146--189) for one group: skip an empty address;
  take the manager of that id or make, start and install one (skipping the group when
  that fails); update its rules, whatever the result of the update.
\<close>

definition updateOrCreate ::
  "Extern \<Rightarrow> Config \<Rightarrow> Storage \<Rightarrow> Time \<Rightarrow> PromRules \<Rightarrow> (int \<rightharpoonup> Manager) \<times> World
     \<Rightarrow> (int \<rightharpoonup> Manager) \<times> World" where
  "updateOrCreate x cfg st now pr mw =
    (if prom_URL (pr_Prom pr) = [] then mw
     else (case (case fst mw (prom_ID (pr_Prom pr)) of
                   Some manager \<Rightarrow> Inr manager
                 | None \<Rightarrow> NewManager x cfg st (pr_Prom pr)) of
             Inl err \<Rightarrow> mw
           | Inr manager \<Rightarrow>
               (case Manager_Update x now (pr_Rules pr) manager (snd mw) of
                  (err, manager', w') \<Rightarrow> ((fst mw)(prom_ID (pr_Prom pr) \<mapsto> manager'), w'))))"

text \<open>
  \<^verbatim>\<open>Reloader.Update\<close>, given what the gateway answers to the two requests and the time
  of the call.
\<close>

definition Reloader_Update ::
  "Extern \<Rightarrow> Time \<Rightarrow> Rule list Response \<Rightarrow> Prom list Response \<Rightarrow> Reloader \<Rightarrow> World
     \<Rightarrow> error option \<times> Reloader \<times> World" where
  "Reloader_Update x now rulesResp promsResp r w =
    (case fetchPromRules rulesResp promsResp of
       Inl err \<Rightarrow> (Some (''failed to fetch rules: '' @ err), r, w)
     | Inr promRules \<Rightarrow>
         (case fold (updateOrCreate x (r_config r) (r_storage r) now) promRules
                 (sweepManagers (r_managers r) promRules, w) of
            (ms, w') \<Rightarrow> (None, r\<lparr>r_managers := ms\<rparr>, w')))"

definition ReloadErrors_Inc :: "World \<Rightarrow> World" where
  "ReloadErrors_Inc w = w\<lparr>metrics := (metrics w)\<lparr>ReloadErrors := ReloadErrors (metrics w) + 1\<rparr>\<rparr>"

definition ReloadSuccess_Inc :: "World \<Rightarrow> World" where
  "ReloadSuccess_Inc w = w\<lparr>metrics := (metrics w)\<lparr>ReloadSuccess := ReloadSuccess (metrics w) + 1\<rparr>\<rparr>"

text \<open>
  \<^verbatim>\<open>Reloader.Loop\<close> (lines 86--108). What the \<^verbatim>\<open>select\<close> receives is an input: a tick
  of the timer, with the time and the answers of the gateway to the update it starts, or
  the cancellation. The loop is observed for as long as the list of events lasts.
\<close>

datatype Event = Tick Time "Rule list Response" "Prom list Response" | Done

fun loopEvents :: "Extern \<Rightarrow> Event list \<Rightarrow> Reloader \<Rightarrow> World \<Rightarrow> Reloader \<times> World" where
  "loopEvents x [] r w = (r, w)"
| "loopEvents x (ev # evs) r w =
    (if \<not> r_running r then (r, w)
     else (case ev of
             Done \<Rightarrow> (r, w)
           | Tick now rulesResp promsResp \<Rightarrow>
               (case Reloader_Update x now rulesResp promsResp r w of
                  (None, r', w') \<Rightarrow> loopEvents x evs r' (ReloadSuccess_Inc w')
                | (Some err, r', w') \<Rightarrow> loopEvents x evs r' (ReloadErrors_Inc w'))))"

definition Loop ::
  "Extern \<Rightarrow> Time \<Rightarrow> Rule list Response \<Rightarrow> Prom list Response \<Rightarrow> Event list \<Rightarrow> Reloader \<Rightarrow> World
     \<Rightarrow> Reloader \<times> World" where
  "Loop x now rulesResp promsResp evs r w =
    (case Reloader_Update x now rulesResp promsResp r w of
       (err, r', w') \<Rightarrow> loopEvents x evs r' w')"

section \<open>The invariants of the data model\<close>

text \<open>
  The three invariants that the specification gives for the state and the timestamps of
  a rule, in its words; \<open>now\<close> is the time of the step.
\<close>

definition rule_invariant :: "Time \<Rightarrow> EvalRule \<Rightarrow> bool" where
  "rule_invariant now r =
    (case State r of
       StateInactive \<Rightarrow> ActiveAt r = zeroTime \<and> FiredAt r = zeroTime
     | StatePending \<Rightarrow>
         ActiveAt r \<noteq> zeroTime \<and> FiredAt r = zeroTime \<and> now - ActiveAt r < sint (For r)
     | StateFiring \<Rightarrow>
         ActiveAt r \<noteq> zeroTime \<and> FiredAt r \<noteq> zeroTime
         \<and> sint (For r) \<le> FiredAt r - ActiveAt r)"

text \<open>The same without the bound on the time that a pending rule has been active.\<close>

definition timestamps_invariant :: "EvalRule \<Rightarrow> bool" where
  "timestamps_invariant r =
    (case State r of
       StateInactive \<Rightarrow> ActiveAt r = zeroTime \<and> FiredAt r = zeroTime
     | StatePending \<Rightarrow> ActiveAt r \<noteq> zeroTime \<and> FiredAt r = zeroTime
     | StateFiring \<Rightarrow>
         ActiveAt r \<noteq> zeroTime \<and> FiredAt r \<noteq> zeroTime
         \<and> sint (For r) \<le> FiredAt r - ActiveAt r)"

text \<open>
  The managers are well keyed: each is held under the id of its source, and its source
  has an address. The empty map of \<^verbatim>\<open>NewReloader\<close> is.
\<close>

definition wf_managers :: "(int \<rightharpoonup> Manager) \<Rightarrow> bool" where
  "wf_managers ms =
    (\<forall>id m. ms id = Some m \<longrightarrow> prom_ID (m_prom m) = id \<and> prom_URL (m_prom m) \<noteq> [])"

text \<open>The ids of the incoming groups that have an address.\<close>

definition addressed :: "PromRules list \<Rightarrow> int set" where
  "addressed groups = prom_ID ` pr_Prom ` {g \<in> set groups. prom_URL (pr_Prom g) \<noteq> []}"

text \<open>The events that start an update.\<close>

definition isTick :: "Event \<Rightarrow> bool" where
  "isTick ev = (case ev of Tick t rr pr \<Rightarrow> True | Done \<Rightarrow> False)"

section \<open>The answers that a notification meets\<close>

text \<open>
  The answers to the next \<open>n\<close> requests to the webhook, and how many of them come before
  the first answer with status 200 (all \<open>n\<close> when none has it).
\<close>

fun upcoming :: "nat \<Rightarrow> HttpResult list \<Rightarrow> HttpResult list" where
  "upcoming 0 ws = []"
| "upcoming (Suc n) [] = TransportError # upcoming n []"
| "upcoming (Suc n) (a # ws) = a # upcoming n ws"

definition failed :: "HttpResult \<Rightarrow> bool" where
  "failed a = (a \<noteq> Status 200)"

definition failures :: "nat \<Rightarrow> World \<Rightarrow> nat" where
  "failures n w = length (takeWhile failed (upcoming n (webhook w)))"

section \<open>Example inputs\<close>

text \<open>
  An evaluator whose world is the list of the notifications sent, as pairs of rule id and
  state, and whose query always finds the value \<open>5\<close>.
\<close>

definition traceNotify :: "EvalRule \<Rightarrow> string \<Rightarrow> (string \<times> string) list \<Rightarrow> (string \<times> string) list" where
  "traceNotify rule state w = w @ [(ID rule, state)]"

definition exEvaluator :: "(string \<times> string) list RuleEvaluator" where
  "exEvaluator = \<lparr>rules = [], interval = 0,
                   queryFunc = (\<lambda>expr w. (QueryOk True 5 None, w)),
                   notifyFunc = Some traceNotify\<rparr>"

definition exRule :: "RuleState \<Rightarrow> Duration \<Rightarrow> Time \<Rightarrow> Time \<Rightarrow> EvalRule" where
  "exRule st for activeAt firedAt =
    \<lparr>ID = ''1'', PromID = 1, Expr = ''up > 0'', For = for, Labels = Map.empty,
     Annotations = Map.empty, State = st, ActiveAt = activeAt, FiredAt = firedAt,
     LastValue = 0\<rparr>"

text \<open>
  Library functions for the examples: only \<^verbatim>\<open>"120s"\<close> parses as a duration; the time
  stamp of a save is \<^verbatim>\<open>t\<close> and the number of the time.
\<close>

definition exExtern :: Extern where
  "exExtern =
    \<lparr>ParseDuration = (\<lambda>s. if s = ''120s'' then Inr 120000000000
                           else Inl ''time: invalid duration''),
     yaml_Marshal = (\<lambda>rs. Inr ''groups''),
     FormatStamp = (\<lambda>t. ''t'' @ FormatInt t),
     FormatRFC3339 = (\<lambda>t. FormatInt t),
     Round2 = (\<lambda>v. v),
     sha256_hex = (\<lambda>b. b),
     api_NewClient = (\<lambda>url. None),
     json_Marshal = (\<lambda>as. Inr ''alerts''),
     http_NewRequest = (\<lambda>url. None)\<rparr>"

definition exStorage :: "bool \<Rightarrow> Storage" where
  "exStorage h = \<lparr>baseDir = ''r'', retentionDays = 30, enableHistory = h\<rparr>"

definition exConfig :: "int \<Rightarrow> Config" where
  "exConfig retries =
    \<lparr>NotifyRetries = retries, Gateway_URL = ''http://gw'', Gateway_NotifyPath = ''/alerts'',
     AuthToken = ''tok'', EvaluationInterval = 0, ReloadInterval = 0\<rparr>"

definition exMetrics :: Metrics where
  "exMetrics = \<lparr>RulesLoaded = Map.empty, NotificationsSent = 0, NotifyErrors = 0,
                 ReloadSuccess = 0, ReloadErrors = 0\<rparr>"

definition exWorld :: "FS \<Rightarrow> HttpResult list \<Rightarrow> World" where
  "exWorld fs answers =
    \<lparr>disk = fs, metrics = exMetrics, webhook = answers, posted = [], backend = [],
     panicked = False\<rparr>"

definition exGatewayRule :: "int \<Rightarrow> int \<Rightarrow> string \<Rightarrow> Rule" where
  "exGatewayRule i p for =
    \<lparr>rule_ID = i, rule_PromID = p, rule_Expr = ''up'', rule_Op = ''>'', rule_Value = ''0'',
     rule_For = for, rule_Labels = Map.empty, rule_Summary = [], rule_Description = []\<rparr>"

definition exManager :: "string \<Rightarrow> EvalRule list \<Rightarrow> Manager" where
  "exManager url rs =
    \<lparr>m_prom = \<lparr>prom_ID = 7, prom_URL = url\<rparr>, m_rules = [], m_config = exConfig 2,
     m_storage = exStorage False,
     m_evaluator = \<lparr>rules = rs, interval = 0, queryFunc = queryPrometheus,
                     notifyFunc = Some (sendNotification exExtern (exConfig 2))\<rparr>,
     m_cancelled = False\<rparr>"

definition exReloader :: "(int \<rightharpoonup> Manager) \<Rightarrow> Reloader" where
  "exReloader ms =
    \<lparr>r_config = exConfig 2, r_storage = exStorage False, r_managers = ms, r_running = True\<rparr>"

text \<open>
  A history directory that holds one version and, later in time, a directory beside it.
\<close>

definition exHistory :: FS where
  "exHistory =
    [([''r''], Dir 1), ([''r'', ''prom_7''], Dir 1), ([''r'', ''prom_7'', ''history''], Dir 1),
     ([''r'', ''prom_7'', ''history'', ''rule_a.yml''], File ''v1'' 10 True),
     ([''r'', ''prom_7'', ''history'', ''rule_b.ym''], Dir 20)]"

section \<open>Properties of the state machine\<close>

text \<open>
  Claim C2. In the variant of lines 159--196, with the notifier installed (as
  \<^verbatim>\<open>NewManager\<close> always does), a rule that is firing and whose query succeeds with a
  value stays firing with its timestamps, and the notifier is called once, with the rule
  as it then is and the state \<^verbatim>\<open>"firing"\<close>: on this tick, and so on every such tick.
\<close>

theorem firing_present_repeats:
  assumes "State rule = StateFiring"
    and "queryFunc e (Expr rule) w = (QueryOk True val ml, w1)"
    and "notifyFunc e = Some f"
  shows "State (fst (evaluateRule e now rule w)) = StateFiring
       \<and> ActiveAt (fst (evaluateRule e now rule w)) = ActiveAt rule
       \<and> FiredAt (fst (evaluateRule e now rule w)) = FiredAt rule
       \<and> snd (evaluateRule e now rule w) = f (fst (evaluateRule e now rule w)) ''firing'' w1"
  using assms
  by (cases ml) (simp_all add: evaluateRule_def mergeLabels_def updateRuleState_def notify_def
      Let_def)

theorem firing_present_repeats_witness:
  "State (exRule StateFiring 0 100 200) = StateFiring
   \<and> State (fst (evaluateRule exEvaluator 300 (exRule StateFiring 0 100 200) [])) = StateFiring
   \<and> snd (evaluateRule exEvaluator 300 (exRule StateFiring 0 100 200) []) = [(''1'', ''firing'')]"
  using firing_present_repeats [of "exRule StateFiring 0 100 200" exEvaluator "[]" 5 None "[]"
      traceNotify 300]
  by (simp add: exRule_def exEvaluator_def traceNotify_def evaluateRule_def mergeLabels_def
      updateRuleState_def notify_def)

text \<open>
  The older variant of the state machine sends nothing on such a tick.
\<close>

lemma updateRuleState_v1_firing_silent:
  "State rule = StateFiring \<Longrightarrow> updateRuleState_v1 e rule True now w = (rule, w)"
  by (simp add: updateRuleState_v1_def)

text \<open>
  A tick handles the rules in order: the rule at index \<open>i\<close> goes through the loop body
  in the world that the rules before it have left.
\<close>

lemma evaluateRules_nth:
  "i < length rs \<Longrightarrow>
   fst (evaluateRules e now rs w) ! i =
     fst (evaluateRule e now (rs ! i) (snd (evaluateRules e now (take i rs) w)))"
proof (induction rs arbitrary: i w)
  case Nil
  then show ?case by simp
next
  case (Cons r rs)
  show ?case
  proof (cases i)
    case 0
    then show ?thesis by (simp add: case_prod_beta)
  next
    case (Suc j)
    then have "j < length rs" using Cons.prems by simp
    then show ?thesis
      using Cons.IH [of j "snd (evaluateRule e now r w)"] Suc
      by (simp add: case_prod_beta)
  qed
qed

subsection \<open>Durations\<close>

lemma sint_word_of_int_64:
  "- (2 ^ 63) \<le> k \<Longrightarrow> k < 2 ^ 63 \<Longrightarrow> sint (word_of_int k :: 64 word) = k"
  by (simp only: sint_sbintrunc') (simp add: signed_take_bit_int_eq_self)

lemma sint_Sub:
  "sint (Sub t u) = (if t - u > maxDuration then maxDuration
                     else if t - u < minDuration then minDuration else t - u)"
proof -
  have a: "sint (word_of_int maxDuration :: 64 word) = maxDuration"
    by (rule sint_word_of_int_64) (simp_all add: maxDuration_def)
  have b: "sint (word_of_int minDuration :: 64 word) = minDuration"
    by (rule sint_word_of_int_64) (simp_all add: minDuration_def)
  have c: "\<not> t - u > maxDuration \<Longrightarrow> \<not> t - u < minDuration
             \<Longrightarrow> sint (word_of_int (t - u) :: 64 word) = t - u"
    by (rule sint_word_of_int_64) (simp_all add: maxDuration_def minDuration_def)
  show ?thesis
    unfolding Sub_def Let_def using a b c by (simp only: if_distrib [of sint] split: if_splits) simp
qed

lemma sint_le_max: "sint (d :: Duration) \<le> maxDuration"
  using sint_lt [of d] by (simp add: maxDuration_def)

text \<open>
  With a clock that has not gone back, the comparison that the code makes on the
  saturated difference is the comparison of the plain difference.
\<close>

lemma elapsed_ge_iff:
  assumes "u \<le> t"
  shows "sint (d :: Duration) \<le> sint (Sub t u) \<longleftrightarrow> sint d \<le> t - u"
  using assms sint_le_max [of d] by (auto simp: sint_Sub maxDuration_def minDuration_def)

subsection \<open>One step of the state machine\<close>

lemma updateRuleState_timestamps:
  assumes "now \<noteq> zeroTime" and "ActiveAt r \<le> now" and "timestamps_invariant r"
  shows "timestamps_invariant (fst (updateRuleState e r hv v now w))"
  using assms
  by (cases "State r")
     (auto simp: updateRuleState_def timestamps_invariant_def Let_def elapsed_ge_iff)

lemma updateRuleState_invariant:
  assumes "now \<noteq> zeroTime" and "ActiveAt r \<le> now" and "timestamps_invariant r"
    and "0 < sint (For r)"
  shows "rule_invariant now (fst (updateRuleState e r hv v now w))"
  using assms
  by (cases "State r")
     (auto simp: updateRuleState_def timestamps_invariant_def rule_invariant_def Let_def
        elapsed_ge_iff)

lemma evaluateRule_ok:
  "queryFunc e (Expr r) w = (QueryOk hv v ml, w1)
   \<Longrightarrow> evaluateRule e now r w = updateRuleState e (mergeLabels r hv ml) hv v now w1"
  by (simp add: evaluateRule_def)

lemma evaluateRule_error:
  "queryFunc e (Expr r) w = (QueryError err, w1) \<Longrightarrow> evaluateRule e now r w = (r, w1)"
  by (simp add: evaluateRule_def)

lemma mergeLabels_fields:
  "State (mergeLabels r hv ml) = State r" "ActiveAt (mergeLabels r hv ml) = ActiveAt r"
  "FiredAt (mergeLabels r hv ml) = FiredAt r" "For (mergeLabels r hv ml) = For r"
  "Expr (mergeLabels r hv ml) = Expr r" "ID (mergeLabels r hv ml) = ID r"
  by (simp_all add: mergeLabels_def split: option.splits)

lemma timestamps_invariant_mergeLabels:
  "timestamps_invariant (mergeLabels r hv ml) = timestamps_invariant r"
  by (cases "State r") (simp_all add: timestamps_invariant_def mergeLabels_fields)

lemma evaluateRule_timestamps:
  assumes "now \<noteq> zeroTime" and "ActiveAt r \<le> now" and "timestamps_invariant r"
  shows "timestamps_invariant (fst (evaluateRule e now r w))"
proof (cases "queryFunc e (Expr r) w")
  case (Pair q w1)
  show ?thesis
  proof (cases q)
    case (QueryError err)
    with Pair assms show ?thesis by (simp add: evaluateRule_error)
  next
    case (QueryOk hv v ml)
    with Pair have "evaluateRule e now r w = updateRuleState e (mergeLabels r hv ml) hv v now w1"
      by (simp add: evaluateRule_ok)
    with assms show ?thesis
      by (simp add: updateRuleState_timestamps mergeLabels_fields
          timestamps_invariant_mergeLabels)
  qed
qed

lemma evaluateRule_invariant:
  assumes "now \<noteq> zeroTime" and "ActiveAt r \<le> now" and "timestamps_invariant r"
    and "0 < sint (For r)" and "queryFunc e (Expr r) w = (QueryOk hv v ml, w1)"
  shows "rule_invariant now (fst (evaluateRule e now r w))"
  using assms
  by (simp add: evaluateRule_ok updateRuleState_invariant mergeLabels_fields
      timestamps_invariant_mergeLabels)

subsection \<open>The update of a manager\<close>

lemma Manager_Update_cases:
  "(\<exists>err w'. Manager_Update x now rs m w = (Some err, m\<lparr>m_rules := rs\<rparr>, w'))
   \<or> (\<exists>w'. Manager_Update x now rs m w =
         (None, m\<lparr>m_rules := rs, m_evaluator := (m_evaluator m)\<lparr>rules := map (toEvalRule x) rs\<rparr>\<rparr>, w'))"
  by (simp add: Manager_Update_def UpdateRules_def Let_def split: sum.splits prod.splits)

lemma Manager_Update_rules:
  "rules (m_evaluator (fst (snd (Manager_Update x now rs m w)))) =
     (if fst (Manager_Update x now rs m w) = None then map (toEvalRule x) rs
      else rules (m_evaluator m))"
  using Manager_Update_cases [of x now rs m w] by auto

lemma Manager_Update_prom:
  "m_prom (fst (snd (Manager_Update x now rs m w))) = m_prom m"
  using Manager_Update_cases [of x now rs m w] by auto

lemma toEvalRule_fresh:
  "State (toEvalRule x r) = StateInactive" "ActiveAt (toEvalRule x r) = zeroTime"
  "FiredAt (toEvalRule x r) = zeroTime" "LastValue (toEvalRule x r) = 0"
  "ID (toEvalRule x r) = FormatInt (rule_ID r)"
  by (simp_all add: toEvalRule_def)

lemma toEvalRule_invariant: "rule_invariant t (toEvalRule x r)"
  by (simp add: rule_invariant_def toEvalRule_fresh)

lemma Manager_Update_invariant:
  assumes "list_all (rule_invariant t) (rules (m_evaluator m))"
  shows "list_all (rule_invariant t) (rules (m_evaluator (fst (snd (Manager_Update x now rs m w)))))"
  using assms by (simp add: Manager_Update_rules list_all_iff toEvalRule_invariant)

text \<open>
  Claim C1, as the code has it. An update that succeeds replaces the rules of the
  evaluator by rules built from the rules of the gateway alone: each of them is inactive,
  with zero timestamps and zero last value, whatever the evaluator held under that id. An
  update that fails leaves the rules of the evaluator, and so their state, as they were.
\<close>

theorem update_starts_every_rule_fresh:
  "(fst (Manager_Update x now rs m w) = None \<longrightarrow>
      rules (m_evaluator (fst (snd (Manager_Update x now rs m w)))) = map (toEvalRule x) rs)
   \<and> (fst (Manager_Update x now rs m w) \<noteq> None \<longrightarrow>
      rules (m_evaluator (fst (snd (Manager_Update x now rs m w)))) = rules (m_evaluator m))
   \<and> ID (toEvalRule x r) = FormatInt (rule_ID r)
   \<and> State (toEvalRule x r) = StateInactive
   \<and> ActiveAt (toEvalRule x r) = zeroTime \<and> FiredAt (toEvalRule x r) = zeroTime
   \<and> LastValue (toEvalRule x r) = 0"
  by (simp add: Manager_Update_rules toEvalRule_fresh)

theorem update_starts_every_rule_fresh_witness:
  "fst (Manager_Update exExtern 300 [exGatewayRule 1 7 ''120s'', exGatewayRule 2 7 []]
          (exManager ''http://a'' [exRule StatePending 0 100 0]) (exWorld [] [])) = None
   \<and> rules (m_evaluator (fst (snd (Manager_Update exExtern 300
          [exGatewayRule 1 7 ''120s'', exGatewayRule 2 7 []]
          (exManager ''http://a'' [exRule StatePending 0 100 0]) (exWorld [] [])))))
      = [toEvalRule exExtern (exGatewayRule 1 7 ''120s''), toEvalRule exExtern (exGatewayRule 2 7 [])]
   \<and> State (toEvalRule exExtern (exGatewayRule 1 7 ''120s'')) = StateInactive"
proof -
  have ok: "fst (Manager_Update exExtern 300 [exGatewayRule 1 7 ''120s'', exGatewayRule 2 7 []]
          (exManager ''http://a'' [exRule StatePending 0 100 0]) (exWorld [] [])) = None"
    by code_simp
  show ?thesis
    using ok update_starts_every_rule_fresh [of exExtern 300
        "[exGatewayRule 1 7 ''120s'', exGatewayRule 2 7 []]"
        "exManager ''http://a'' [exRule StatePending 0 100 0]" "exWorld [] []"
        "exGatewayRule 1 7 ''120s''"]
    by simp
qed

theorem update_drops_state_counterexample:
  "map ID (rules (m_evaluator (exManager ''http://a'' [exRule StateFiring 0 100 200]))) = [''1'']
   \<and> map State (rules (m_evaluator (exManager ''http://a'' [exRule StateFiring 0 100 200])))
       = [StateFiring]
   \<and> fst (Manager_Update exExtern 300 [exGatewayRule 1 7 []]
             (exManager ''http://a'' [exRule StateFiring 0 100 200]) (exWorld [] [])) = None
   \<and> map ID (rules (m_evaluator (fst (snd (Manager_Update exExtern 300 [exGatewayRule 1 7 []]
             (exManager ''http://a'' [exRule StateFiring 0 100 200]) (exWorld [] []))))))
       = [''1'']
   \<and> map State (rules (m_evaluator (fst (snd (Manager_Update exExtern 300 [exGatewayRule 1 7 []]
             (exManager ''http://a'' [exRule StateFiring 0 100 200]) (exWorld [] []))))))
       = [StateInactive]
   \<and> map FiredAt (rules (m_evaluator (fst (snd (Manager_Update exExtern 300 [exGatewayRule 1 7 []]
             (exManager ''http://a'' [exRule StateFiring 0 100 200]) (exWorld [] []))))))
       = [0]"
  by code_simp

text \<open>
  Claim C4, as the code has it. At a tick at a time \<open>now\<close> that is not the zero time and
  not before the activation of the rule, the invariants on the state and the timestamps
  (inactive: both zero; pending: \<open>active_at\<close> set, \<open>fired_at\<close> zero; firing: both set and
  \<open>fired_at - active_at \<ge> for\<close>) are kept by the step on a rule, whatever the query gives.
  The bound \<open>now - active_at < for\<close> of a pending rule holds after a step whose query
  succeeded when the duration of the rule is positive. An update keeps the three invariants
  of the specification for every rule of the evaluator.
\<close>

theorem tick_and_update_keep_invariants:
  "(now \<noteq> zeroTime \<and> ActiveAt r \<le> now \<and> timestamps_invariant r \<longrightarrow>
      timestamps_invariant (fst (evaluateRule e now r w))
      \<and> (0 < sint (For r) \<and> queryFunc e (Expr r) w = (QueryOk hv v ml, w1) \<longrightarrow>
           rule_invariant now (fst (evaluateRule e now r w))))
   \<and> (list_all (rule_invariant t) (rules (m_evaluator m)) \<longrightarrow>
        list_all (rule_invariant t)
          (rules (m_evaluator (fst (snd (Manager_Update x now' rs m wd))))))"
  by (simp add: evaluateRule_timestamps evaluateRule_invariant Manager_Update_invariant)

theorem tick_and_update_keep_invariants_witness:
  "(300 \<noteq> zeroTime \<and> ActiveAt (exRule StatePending 120000000000 100 0) \<le> 300
      \<and> timestamps_invariant (exRule StatePending 120000000000 100 0)
      \<and> 0 < sint (For (exRule StatePending 120000000000 100 0))
      \<and> queryFunc exEvaluator (Expr (exRule StatePending 120000000000 100 0)) []
          = (QueryOk True 5 None, []))
   \<and> rule_invariant 300
        (fst (evaluateRule exEvaluator 300 (exRule StatePending 120000000000 100 0) []))
   \<and> State (fst (evaluateRule exEvaluator 300 (exRule StatePending 120000000000 100 0) []))
       = StatePending
   \<and> list_all (rule_invariant 300) (rules (m_evaluator (exManager ''http://a''
        [exRule StatePending 120000000000 100 0])))
   \<and> list_all (rule_invariant 300) (rules (m_evaluator (fst (snd (Manager_Update exExtern 300
        [exGatewayRule 1 7 ''120s'']
        (exManager ''http://a'' [exRule StatePending 120000000000 100 0]) (exWorld [] []))))))"
proof -
  have s: "sint (120000000000 :: 64 word) = 120000000000"
    by simp
  have h: "300 \<noteq> zeroTime \<and> ActiveAt (exRule StatePending 120000000000 100 0) \<le> 300
      \<and> timestamps_invariant (exRule StatePending 120000000000 100 0)
      \<and> 0 < sint (For (exRule StatePending 120000000000 100 0))
      \<and> queryFunc exEvaluator (Expr (exRule StatePending 120000000000 100 0)) []
          = (QueryOk True 5 None, [])"
    by (simp add: zeroTime_def exRule_def timestamps_invariant_def exEvaluator_def)
  have p: "State (fst (evaluateRule exEvaluator 300 (exRule StatePending 120000000000 100 0) []))
       = StatePending"
    by (simp add: exRule_def exEvaluator_def evaluateRule_def mergeLabels_def
        updateRuleState_def sint_Sub maxDuration_def minDuration_def)
  have i: "list_all (rule_invariant 300) (rules (m_evaluator (exManager ''http://a''
        [exRule StatePending 120000000000 100 0])))"
    by (simp add: exManager_def exRule_def rule_invariant_def zeroTime_def)
  show ?thesis
    using h p i tick_and_update_keep_invariants [of 300 "exRule StatePending 120000000000 100 0"
        exEvaluator "[]" True 5 None "[]" 300
        "exManager ''http://a'' [exRule StatePending 120000000000 100 0]" exExtern 300
        "[exGatewayRule 1 7 ''120s'']" "exWorld [] []"]
    by blast
qed

theorem pending_bound_counterexample:
  "rule_invariant 100 (exRule StateInactive 0 0 0)
   \<and> State (fst (evaluateRule exEvaluator 100 (exRule StateInactive 0 0 0) [])) = StatePending
   \<and> \<not> rule_invariant 100 (fst (evaluateRule exEvaluator 100 (exRule StateInactive 0 0 0) []))"
  by (simp add: rule_invariant_def exRule_def exEvaluator_def evaluateRule_def mergeLabels_def
      updateRuleState_def zeroTime_def)

text \<open>
  Claim C5, as the code has it. A rule whose \<open>for\<close> does not parse (as the empty string
  does not) has the duration \<open>0\<close> and starts inactive. The first tick with a value moves
  it to pending and sends nothing; the next tick with a value, at a time not before the
  first, moves it to firing and calls the notifier with \<^verbatim>\<open>"firing"\<close>.
\<close>

theorem unparseable_for_fires_on_second_tick:
  assumes "ParseDuration x (rule_For rule) = Inl err"
    and "notifyFunc e = Some f"
    and "queryFunc e (Expr (toEvalRule x rule)) w = (QueryOk True v1 ml1, w1)"
    and "queryFunc e (Expr (toEvalRule x rule)) w' = (QueryOk True v2 ml2, w2)"
    and "now1 \<le> now2"
  shows "For (toEvalRule x rule) = 0 \<and> State (toEvalRule x rule) = StateInactive
    \<and> State (fst (evaluateRule e now1 (toEvalRule x rule) w)) = StatePending
    \<and> snd (evaluateRule e now1 (toEvalRule x rule) w) = w1
    \<and> State (fst (evaluateRule e now2 (fst (evaluateRule e now1 (toEvalRule x rule) w)) w'))
        = StateFiring
    \<and> snd (evaluateRule e now2 (fst (evaluateRule e now1 (toEvalRule x rule) w)) w')
        = f (fst (evaluateRule e now2 (fst (evaluateRule e now1 (toEvalRule x rule) w)) w'))
            ''firing'' w2"
proof -
  let ?r0 = "toEvalRule x rule"
  let ?r1 = "(mergeLabels ?r0 True ml1)\<lparr>LastValue := v1, State := StatePending, ActiveAt := now1\<rparr>"
  have for0: "For ?r0 = 0" and st0: "State ?r0 = StateInactive"
    using assms(1) by (simp_all add: toEvalRule_def)
  have step1: "evaluateRule e now1 ?r0 w = (?r1, w1)"
    using assms(3) st0
    by (simp add: evaluateRule_ok updateRuleState_def mergeLabels_fields)
  have f1: "State ?r1 = StatePending" "ActiveAt ?r1 = now1" "For ?r1 = 0" "Expr ?r1 = Expr ?r0"
    by (simp_all add: mergeLabels_fields for0)
  have el: "sint (0 :: Duration) \<le> sint (Sub now2 now1)"
    using assms(5) elapsed_ge_iff [of now1 now2 0] by simp
  have q2: "queryFunc e (Expr ?r1) w' = (QueryOk True v2 ml2, w2)"
    using assms(4) f1 by simp
  have step2: "evaluateRule e now2 ?r1 w' =
      ((mergeLabels ?r1 True ml2)\<lparr>LastValue := v2, State := StateFiring, FiredAt := now2\<rparr>,
       f ((mergeLabels ?r1 True ml2)\<lparr>LastValue := v2, State := StateFiring, FiredAt := now2\<rparr>)
         ''firing'' w2)"
    using el f1 assms(2)
    by (simp add: evaluateRule_ok [OF q2] updateRuleState_def mergeLabels_fields notify_def Let_def)
  show ?thesis
    by (simp only: step1 step2 fst_conv snd_conv for0 st0 simp_thms) simp
qed

theorem unparseable_for_fires_on_second_tick_witness:
  "ParseDuration exExtern (rule_For (exGatewayRule 1 7 [])) = Inl ''time: invalid duration''
   \<and> State (fst (evaluateRule exEvaluator 100 (toEvalRule exExtern (exGatewayRule 1 7 [])) []))
       = StatePending
   \<and> State (fst (evaluateRule exEvaluator 130
        (fst (evaluateRule exEvaluator 100 (toEvalRule exExtern (exGatewayRule 1 7 [])) [])) []))
       = StateFiring
   \<and> snd (evaluateRule exEvaluator 130
        (fst (evaluateRule exEvaluator 100 (toEvalRule exExtern (exGatewayRule 1 7 [])) [])) [])
       = [(''1'', ''firing'')]"
proof -
  have p: "ParseDuration exExtern (rule_For (exGatewayRule 1 7 [])) = Inl ''time: invalid duration''"
    by (simp add: exExtern_def exGatewayRule_def)
  have n: "notifyFunc exEvaluator = Some traceNotify"
    by (simp add: exEvaluator_def)
  have q: "queryFunc exEvaluator (Expr (toEvalRule exExtern (exGatewayRule 1 7 []))) []
       = (QueryOk True 5 None, [])"
    by (simp add: exEvaluator_def)
  have i: "ID (fst (evaluateRule exEvaluator 130
        (fst (evaluateRule exEvaluator 100 (toEvalRule exExtern (exGatewayRule 1 7 [])) [])) []))
        = ''1''"
    by code_simp
  show ?thesis
    using unparseable_for_fires_on_second_tick [OF p n q q, of 100 130] p i
    by (simp add: traceNotify_def)
qed

theorem first_present_tick_counterexample:
  "rule_For (exGatewayRule 1 7 []) = []
   \<and> For (toEvalRule exExtern (exGatewayRule 1 7 [])) = 0
   \<and> State (toEvalRule exExtern (exGatewayRule 1 7 [])) = StateInactive
   \<and> State (fst (evaluateRule exEvaluator 100 (toEvalRule exExtern (exGatewayRule 1 7 [])) []))
       \<noteq> StateFiring
   \<and> snd (evaluateRule exEvaluator 100 (toEvalRule exExtern (exGatewayRule 1 7 [])) []) = []"
  by code_simp

subsection \<open>The retry loop of the notifier\<close>

lemma length_upcoming [simp]: "length (upcoming n ws) = n"
  by (induction n ws rule: upcoming.induct) simp_all

lemma failures_le: "failures n w \<le> n"
  using length_takeWhile_le [of failed "upcoming n (webhook w)"] by (simp add: failures_def)

lemma client_Do_fields:
  "posted (snd (client_Do req w)) = posted w @ [req]"
  "webhook (snd (client_Do req w)) = tl (webhook w)"
  "metrics (snd (client_Do req w)) = metrics w"
  "disk (snd (client_Do req w)) = disk w"
  "backend (snd (client_Do req w)) = backend w"
  "panicked (snd (client_Do req w)) = panicked w"
  by (simp_all add: client_Do_def split: list.splits)

lemma upcoming_Suc:
  "upcoming (Suc n) (webhook w) = fst (client_Do req w) # upcoming n (webhook (snd (client_Do req w)))"
  by (cases "webhook w") (simp_all add: client_Do_def)

lemma notifyLoop_counts:
  "http_NewRequest x (req_URL req) = None \<Longrightarrow> k = nat (NotifyRetries cfg + 1 - i) \<Longrightarrow>
   NotifyErrors (metrics (notifyLoop x cfg req i w)) = NotifyErrors (metrics w) + failures k w
   \<and> NotificationsSent (metrics (notifyLoop x cfg req i w)) =
       NotificationsSent (metrics w) + (if failures k w < k then 1 else 0)
   \<and> posted (notifyLoop x cfg req i w) = posted w @ replicate (min k (Suc (failures k w))) req
   \<and> webhook (notifyLoop x cfg req i w) = drop (min k (Suc (failures k w))) (webhook w)
   \<and> ReloadSuccess (metrics (notifyLoop x cfg req i w)) = ReloadSuccess (metrics w)
   \<and> ReloadErrors (metrics (notifyLoop x cfg req i w)) = ReloadErrors (metrics w)
   \<and> RulesLoaded (metrics (notifyLoop x cfg req i w)) = RulesLoaded (metrics w)
   \<and> disk (notifyLoop x cfg req i w) = disk w
   \<and> backend (notifyLoop x cfg req i w) = backend w
   \<and> panicked (notifyLoop x cfg req i w) = panicked w"
proof (induction k arbitrary: i w)
  case 0
  note ok = "0.prems"(1)
  from 0 have "\<not> i \<le> NotifyRetries cfg" by simp
  then have "notifyLoop x cfg req i w = w" by (simp add: notifyLoop.simps)
  then show ?case by (simp add: failures_def)
next
  case (Suc k)
  note ok = Suc.prems(1)
  from Suc have le: "i \<le> NotifyRetries cfg" and k: "k = nat (NotifyRetries cfg + 1 - (i + 1))"
    by simp_all
  obtain a w1 where d: "client_Do req w = (a, w1)" by (cases "client_Do req w")
  have up: "upcoming (Suc k) (webhook w) = a # upcoming k (webhook w1)"
    using upcoming_Suc [of k w req] d by simp
  have w1: "posted w1 = posted w @ [req]" "webhook w1 = tl (webhook w)" "metrics w1 = metrics w"
    "disk w1 = disk w" "backend w1 = backend w" "panicked w1 = panicked w"
    using client_Do_fields [of req w] d by simp_all
  show ?case
  proof (cases "a = Status 200")
    case True
    then have "notifyLoop x cfg req i w = NotificationsSent_Add1 w1"
      using le d ok by (simp add: notifyLoop.simps [of x cfg req i w])
    moreover have "failures (Suc k) w = 0"
      using up True by (simp add: failures_def failed_def)
    ultimately show ?thesis
      using w1 by (simp add: NotificationsSent_Add1_def drop_Suc)
  next
    case False
    then have step: "notifyLoop x cfg req i w = notifyLoop x cfg req (i + 1) (NotifyErrors_Inc w1)"
      using le d ok by (cases a) (simp_all add: notifyLoop.simps [of x cfg req i w])
    have f: "failures (Suc k) w = Suc (failures k (NotifyErrors_Inc w1))"
      using up False by (simp add: failures_def failed_def NotifyErrors_Inc_def)
    have IH: "NotifyErrors (metrics (notifyLoop x cfg req (i + 1) (NotifyErrors_Inc w1))) =
        NotifyErrors (metrics (NotifyErrors_Inc w1)) + failures k (NotifyErrors_Inc w1)
      \<and> NotificationsSent (metrics (notifyLoop x cfg req (i + 1) (NotifyErrors_Inc w1))) =
        NotificationsSent (metrics (NotifyErrors_Inc w1))
          + (if failures k (NotifyErrors_Inc w1) < k then 1 else 0)
      \<and> posted (notifyLoop x cfg req (i + 1) (NotifyErrors_Inc w1)) =
        posted (NotifyErrors_Inc w1) @ replicate (min k (Suc (failures k (NotifyErrors_Inc w1)))) req
      \<and> webhook (notifyLoop x cfg req (i + 1) (NotifyErrors_Inc w1)) =
        drop (min k (Suc (failures k (NotifyErrors_Inc w1)))) (webhook (NotifyErrors_Inc w1))
      \<and> ReloadSuccess (metrics (notifyLoop x cfg req (i + 1) (NotifyErrors_Inc w1))) =
          ReloadSuccess (metrics (NotifyErrors_Inc w1))
      \<and> ReloadErrors (metrics (notifyLoop x cfg req (i + 1) (NotifyErrors_Inc w1))) =
          ReloadErrors (metrics (NotifyErrors_Inc w1))
      \<and> RulesLoaded (metrics (notifyLoop x cfg req (i + 1) (NotifyErrors_Inc w1))) =
          RulesLoaded (metrics (NotifyErrors_Inc w1))
      \<and> disk (notifyLoop x cfg req (i + 1) (NotifyErrors_Inc w1)) = disk (NotifyErrors_Inc w1)
      \<and> backend (notifyLoop x cfg req (i + 1) (NotifyErrors_Inc w1)) = backend (NotifyErrors_Inc w1)
      \<and> panicked (notifyLoop x cfg req (i + 1) (NotifyErrors_Inc w1)) = panicked (NotifyErrors_Inc w1)"
      using Suc.IH [OF ok k] .
    show ?thesis
      unfolding step f using IH w1
      by (simp add: NotifyErrors_Inc_def drop_Suc)
  qed
qed

lemma length_takeWhile_less_iff:
  "length (takeWhile P xs) < length xs \<longleftrightarrow> (\<exists>a \<in> set xs. \<not> P a)"
  by (induction xs) auto

lemma failures_lt_iff: "failures n w < n \<longleftrightarrow> Status 200 \<in> set (upcoming n (webhook w))"
  using length_takeWhile_less_iff [of failed "upcoming n (webhook w)"]
  by (simp add: failures_def failed_def)

lemma sendNotification_marshal_error:
  "json_Marshal x [makeAlert x rule state] = Inl err
   \<Longrightarrow> sendNotification x cfg rule state w = NotifyErrors_Inc w"
  by (simp add: sendNotification_def)

lemma notifyLoop_v1_counts:
  "k = nat (NotifyRetries cfg + 1 - i) \<Longrightarrow>
   NotificationsSent (metrics (notifyLoop_v1 cfg i w)) = NotificationsSent (metrics w) + k
   \<and> NotifyErrors (metrics (notifyLoop_v1 cfg i w)) = NotifyErrors (metrics w)
   \<and> posted (notifyLoop_v1 cfg i w) = posted w"
proof (induction k arbitrary: i w)
  case 0
  then have "\<not> i \<le> NotifyRetries cfg" by simp
  then show ?case by (simp add: notifyLoop_v1.simps [of cfg i w])
next
  case (Suc k)
  then have le: "i \<le> NotifyRetries cfg" and k: "k = nat (NotifyRetries cfg + 1 - (i + 1))"
    by simp_all
  show ?case
    using le Suc.IH [OF k, of "NotificationsSent_Add1 w"]
    by (simp add: notifyLoop_v1.simps [of cfg i w] NotificationsSent_Add1_def)
qed

text \<open>
  The older copy of the notifier sends nothing and counts one notification as sent for
  each round of its loop.
\<close>

lemma sendNotification_v1_counts:
  "NotificationsSent (metrics (sendNotification_v1 cfg rule state w))
     = NotificationsSent (metrics w) + nat (NotifyRetries cfg)
   \<and> NotifyErrors (metrics (sendNotification_v1 cfg rule state w)) = NotifyErrors (metrics w)
   \<and> posted (sendNotification_v1 cfg rule state w) = posted w"
  using notifyLoop_v1_counts [of "nat (NotifyRetries cfg)" cfg 1 w]
  by (simp add: sendNotification_v1_def)

text \<open>
  When the address of the webhook does not parse, the first round of the loop panics.
\<close>

lemma sendNotification_bad_address:
  assumes "json_Marshal x [makeAlert x rule state] = Inr data"
    and "http_NewRequest x (Gateway_URL cfg @ Gateway_NotifyPath cfg) = Some err"
    and "1 \<le> NotifyRetries cfg"
  shows "sendNotification x cfg rule state w = w\<lparr>panicked := True\<rparr>"
  using assms by (simp add: sendNotification_def notifyLoop.simps)

text \<open>
  Claim C6. When the address of the webhook parses and the alert serialises, a
  notification sends the same request at most
  \<^verbatim>\<open>NotifyRetries\<close> times, one after the other: as many times as there are answers
  before the first 200 among the next \<^verbatim>\<open>NotifyRetries\<close> answers, plus once for that 200
  if there is one. Each answer before it, a status other than 200 or a failure of
  transport, adds one to \<^verbatim>\<open>notify_errors_total\<close>; the 200 adds one to
  \<^verbatim>\<open>notifications_sent_total\<close> and ends the call. When the alert does not serialise,
  nothing is sent and \<^verbatim>\<open>notify_errors_total\<close> goes up by one.
\<close>

theorem notification_retries:
  assumes "NotifyRetries cfg < 2 ^ 63 - 1"
    and "http_NewRequest x (Gateway_URL cfg @ Gateway_NotifyPath cfg) = None"
  shows "(json_Marshal x [makeAlert x rule state] = Inr data \<longrightarrow>
      (let n = nat (NotifyRetries cfg);
           j = failures n w;
           w' = sendNotification x cfg rule state w
       in min n (Suc j) \<le> n
          \<and> posted w' = posted w @ replicate (min n (Suc j))
               \<lparr>req_Method = ''POST'', req_URL = Gateway_URL cfg @ Gateway_NotifyPath cfg,
                req_Token = AuthToken cfg, req_ContentType = ''application/json'',
                req_Body = data\<rparr>
          \<and> (j < n) = (Status 200 \<in> set (upcoming n (webhook w)))
          \<and> NotifyErrors (metrics w') = NotifyErrors (metrics w) + j
          \<and> NotificationsSent (metrics w') =
              NotificationsSent (metrics w) + (if j < n then 1 else 0)))
    \<and> (json_Marshal x [makeAlert x rule state] = Inl err \<longrightarrow>
         posted (sendNotification x cfg rule state w) = posted w
         \<and> NotifyErrors (metrics (sendNotification x cfg rule state w)) = NotifyErrors (metrics w) + 1
         \<and> NotificationsSent (metrics (sendNotification x cfg rule state w)) =
             NotificationsSent (metrics w))"
proof -
  let ?req = "\<lparr>req_Method = ''POST'', req_URL = Gateway_URL cfg @ Gateway_NotifyPath cfg,
                req_Token = AuthToken cfg, req_ContentType = ''application/json'',
                req_Body = data\<rparr>"
  have k: "nat (NotifyRetries cfg) = nat (NotifyRetries cfg + 1 - 1)" by simp
  have ok: "json_Marshal x [makeAlert x rule state] = Inr data
      \<Longrightarrow> sendNotification x cfg rule state w = notifyLoop x cfg ?req 1 w"
    by (simp add: sendNotification_def)
  have bad: "json_Marshal x [makeAlert x rule state] = Inl err
      \<Longrightarrow> sendNotification x cfg rule state w = NotifyErrors_Inc w"
    by (rule sendNotification_marshal_error)
  show ?thesis
    using notifyLoop_counts [of x ?req, OF _ k, of w] assms(2)
      failures_lt_iff [of "nat (NotifyRetries cfg)" w]
    by (auto simp: Let_def ok bad NotifyErrors_Inc_def)
qed

theorem notification_retries_witness:
  "NotifyRetries (exConfig 2) < 2 ^ 63 - 1
   \<and> json_Marshal exExtern [makeAlert exExtern (exRule StateFiring 0 100 200) ''firing'']
       = Inr ''alerts''
   \<and> length (posted (sendNotification exExtern (exConfig 2) (exRule StateFiring 0 100 200)
        ''firing'' (exWorld [] [Status 500, Status 500]))) = 2
   \<and> NotifyErrors (metrics (sendNotification exExtern (exConfig 2)
        (exRule StateFiring 0 100 200) ''firing'' (exWorld [] [Status 500, Status 500]))) = 2
   \<and> NotificationsSent (metrics (sendNotification exExtern (exConfig 2)
        (exRule StateFiring 0 100 200) ''firing'' (exWorld [] [Status 500, Status 500]))) = 0"
proof -
  have r: "NotifyRetries (exConfig 2) < 2 ^ 63 - 1"
    by (simp add: exConfig_def)
  have m: "json_Marshal exExtern [makeAlert exExtern (exRule StateFiring 0 100 200) ''firing'']
       = Inr ''alerts''"
    by (simp add: exExtern_def)
  have u: "http_NewRequest exExtern (Gateway_URL (exConfig 2) @ Gateway_NotifyPath (exConfig 2))
       = None"
    by (simp add: exExtern_def)
  have f: "failures 2 (exWorld [] [Status 500, Status 500]) = 2"
    "upcoming 2 (webhook (exWorld [] [Status 500, Status 500])) = [Status 500, Status 500]"
    by code_simp+
  have w: "posted (exWorld [] [Status 500, Status 500]) = []"
    "NotifyErrors (metrics (exWorld [] [Status 500, Status 500])) = 0"
    "NotificationsSent (metrics (exWorld [] [Status 500, Status 500])) = 0"
    "nat (NotifyRetries (exConfig 2)) = 2"
    by (simp_all add: exWorld_def exMetrics_def exConfig_def)
  show ?thesis
    using r m notification_retries [OF r u, of "exRule StateFiring 0 100 200" "''firing''"
        "''alerts''" "exWorld [] [Status 500, Status 500]"]
    by (simp add: Let_def f w)
qed

subsection \<open>The reload counters\<close>

lemma Manager_Update_counters:
  "ReloadSuccess (metrics (snd (snd (Manager_Update x now rs m w)))) = ReloadSuccess (metrics w)
   \<and> ReloadErrors (metrics (snd (snd (Manager_Update x now rs m w)))) = ReloadErrors (metrics w)"
  by (simp add: Manager_Update_def Let_def split: sum.splits prod.splits)

lemma updateOrCreate_counters:
  "ReloadSuccess (metrics (snd (updateOrCreate x cfg st now pr mw))) = ReloadSuccess (metrics (snd mw))
   \<and> ReloadErrors (metrics (snd (updateOrCreate x cfg st now pr mw))) = ReloadErrors (metrics (snd mw))"
  by (simp add: updateOrCreate_def case_prod_beta Manager_Update_counters
      split: option.splits sum.splits)

lemma fold_updateOrCreate_counters:
  "ReloadSuccess (metrics (snd (fold (updateOrCreate x cfg st now) prs mw)))
     = ReloadSuccess (metrics (snd mw))
   \<and> ReloadErrors (metrics (snd (fold (updateOrCreate x cfg st now) prs mw)))
     = ReloadErrors (metrics (snd mw))"
  by (induction prs arbitrary: mw) (simp_all add: updateOrCreate_counters)

lemma Reloader_Update_counters:
  "ReloadSuccess (metrics (snd (snd (Reloader_Update x now rr pr r w)))) = ReloadSuccess (metrics w)
   \<and> ReloadErrors (metrics (snd (snd (Reloader_Update x now rr pr r w)))) = ReloadErrors (metrics w)"
  by (simp add: Reloader_Update_def case_prod_beta fold_updateOrCreate_counters split: sum.splits)

lemma Reloader_Update_running:
  "r_running (fst (snd (Reloader_Update x now rr pr r w))) = r_running r"
  by (simp add: Reloader_Update_def case_prod_beta split: sum.splits)

lemma loopEvents_counts:
  "r_running r \<Longrightarrow>
   ReloadSuccess (metrics (snd (loopEvents x evs r w)))
     + ReloadErrors (metrics (snd (loopEvents x evs r w)))
   = ReloadSuccess (metrics w) + ReloadErrors (metrics w) + length (takeWhile isTick evs)"
proof (induction evs arbitrary: r w)
  case Nil
  then show ?case by simp
next
  case (Cons ev evs)
  show ?case
  proof (cases ev)
    case Done
    with Cons.prems show ?thesis by (simp add: isTick_def)
  next
    case (Tick now rr pr)
    obtain err r' w' where u: "Reloader_Update x now rr pr r w = (err, r', w')"
      by (cases "Reloader_Update x now rr pr r w")
    have run: "r_running r'"
      using Reloader_Update_running [of x now rr pr r w] u Cons.prems by simp
    have c: "ReloadSuccess (metrics w') = ReloadSuccess (metrics w)"
      "ReloadErrors (metrics w') = ReloadErrors (metrics w)"
      using Reloader_Update_counters [of x now rr pr r w] u by simp_all
    show ?thesis
    proof (cases err)
      case None
      then show ?thesis
        using Cons.prems Tick u c Cons.IH [OF run, of "ReloadSuccess_Inc w'"]
        by (simp add: isTick_def ReloadSuccess_Inc_def)
    next
      case (Some e)
      then show ?thesis
        using Cons.prems Tick u c Cons.IH [OF run, of "ReloadErrors_Inc w'"]
        by (simp add: isTick_def ReloadErrors_Inc_def)
    qed
  qed
qed

text \<open>
  The two reload counters together go up by the number of ticks that the loop serves
  before it is cancelled: the update that the loop makes at once, before the first tick,
  is in neither, whether it succeeds or fails.
\<close>

lemma Loop_counts_ticks_only:
  assumes "r_running r"
  shows "ReloadSuccess (metrics (snd (Loop x now rr pr evs r w)))
     + ReloadErrors (metrics (snd (Loop x now rr pr evs r w)))
   = ReloadSuccess (metrics w) + ReloadErrors (metrics w) + length (takeWhile isTick evs)"
proof -
  obtain err r' w' where u: "Reloader_Update x now rr pr r w = (err, r', w')"
    by (cases "Reloader_Update x now rr pr r w")
  have run: "r_running r'"
    using Reloader_Update_running [of x now rr pr r w] u assms by simp
  have c: "ReloadSuccess (metrics w') = ReloadSuccess (metrics w)"
    "ReloadErrors (metrics w') = ReloadErrors (metrics w)"
    using Reloader_Update_counters [of x now rr pr r w] u by simp_all
  show ?thesis
    using loopEvents_counts [OF run, of x evs w'] u c by (simp add: Loop_def)
qed

text \<open>
  Claim C7, at a failing input. The loop is started on a running reloader without
  managers and is cancelled before the first tick. Whether the gateway answers the first
  update (with no rules) or cannot be reached, the update is made and both reload
  counters are as they were.
\<close>

theorem loop_initial_update_not_counted:
  "r_running (exReloader Map.empty)
   \<and> fst (Reloader_Update exExtern 100 (Decoded 0 [] []) (Decoded 0 [] [])
           (exReloader Map.empty) (exWorld [] [])) = None
   \<and> ReloadSuccess (metrics (snd (Loop exExtern 100 (Decoded 0 [] []) (Decoded 0 [] []) [Done]
           (exReloader Map.empty) (exWorld [] [])))) = 0
   \<and> ReloadErrors (metrics (snd (Loop exExtern 100 (Decoded 0 [] []) (Decoded 0 [] []) [Done]
           (exReloader Map.empty) (exWorld [] [])))) = 0
   \<and> fst (Reloader_Update exExtern 100 RequestFailed (Decoded 0 [] [])
           (exReloader Map.empty) (exWorld [] [])) = Some ''failed to fetch rules: request failed''
   \<and> ReloadSuccess (metrics (snd (Loop exExtern 100 RequestFailed (Decoded 0 [] []) [Done]
           (exReloader Map.empty) (exWorld [] [])))) = 0
   \<and> ReloadErrors (metrics (snd (Loop exExtern 100 RequestFailed (Decoded 0 [] []) [Done]
           (exReloader Map.empty) (exWorld [] [])))) = 0"
  by code_simp

subsection \<open>Listing the versions\<close>

lemma resolve_absent:
  assumes "node_at fs (pre @ cs) = None"
    and "\<And>q b t r. strict_prefix q (pre @ cs) \<Longrightarrow> node_at fs q \<noteq> Some (File b t r)"
  shows "resolve fs pre cs = Inl ENOENT"
  using assms
proof (induction cs arbitrary: pre)
  case Nil
  then show ?case by simp
next
  case (Cons c cs)
  have nf: "\<And>b t r. node_at fs pre \<noteq> Some (File b t r)"
    using Cons.prems(2) [of pre] by (simp add: strict_prefix_def)
  show ?case
  proof (cases "node_at fs pre")
    case None
    then show ?thesis by simp
  next
    case (Some n)
    then obtain t where n: "n = Dir t" using nf by (cases n) auto
    have "resolve fs (pre @ [c]) cs = Inl ENOENT"
      using Cons.prems by (intro Cons.IH) simp_all
    with Some n show ?thesis by simp
  qed
qed

lemma ListVersions_disabled:
  "\<not> enableHistory s \<Longrightarrow> ListVersions x s promID limit fs = Inl ''history is disabled''"
  by (simp add: ListVersions_def)

text \<open>
  Claim C10. With the history on, when nothing is at the path of the history directory
  of the source and no file stands in the way to it, the list of versions is empty and
  there is no error.
\<close>

theorem list_versions_missing_directory:
  assumes "enableHistory s"
    and "node_at fs (components (getPromHistoryDir s promID)) = None"
    and "\<And>q b t r. strict_prefix q (components (getPromHistoryDir s promID))
            \<Longrightarrow> node_at fs q \<noteq> Some (File b t r)"
  shows "ListVersions x s promID limit fs = Inr []"
proof -
  have "resolve fs [] (components (getPromHistoryDir s promID)) = Inl ENOENT"
    using assms(2,3) by (intro resolve_absent) simp_all
  then have "ReadDir (getPromHistoryDir s promID) fs = Inl ENOENT"
    by (simp add: ReadDir_def)
  with assms(1) show ?thesis
    by (simp add: ListVersions_def IsNotExist_def)
qed

theorem list_versions_missing_directory_witness:
  "enableHistory (exStorage True)
   \<and> node_at [([''r''], Dir 1)] (components (getPromHistoryDir (exStorage True) 7)) = None
   \<and> ListVersions exExtern (exStorage True) 7 5 [([''r''], Dir 1)] = Inr []"
proof -
  have c: "components (getPromHistoryDir (exStorage True) 7) = [''r'', ''prom_7'', ''history'']"
    by code_simp
  have e: "enableHistory (exStorage True)"
    by (simp add: exStorage_def)
  have n: "node_at [([''r''], Dir 1)] (components (getPromHistoryDir (exStorage True) 7)) = None"
    by (simp add: c node_at_def)
  have f: "\<And>q b t r. strict_prefix q (components (getPromHistoryDir (exStorage True) 7))
            \<Longrightarrow> node_at [([''r''], Dir 1)] q \<noteq> Some (File b t r)"
    by (simp add: node_at_def zeroTime_def)
  show ?thesis
    using e n list_versions_missing_directory [OF e n f, of exExtern 5] by simp
qed

text \<open>
  Claim C8, at a failing input. The history directory of source 7 holds one version,
  \<^verbatim>\<open>rule_a.yml\<close>, and a directory modified after it. The list of all versions has that
  one record, with the ordinal 2. On the directory as two saves of the store itself
  leave it, the two versions have the ordinals 2 and 4.
\<close>

theorem list_versions_ordinal_skips:
  "ListVersions exExtern (exStorage True) 7 0 exHistory =
     Inr [\<lparr>Version = 2, ver_PromID = 7, RuleCount = 0, CreatedAt = 10,
           FilePath = ''r/prom_7/history/rule_a.yml'', Hash = ''v1''\<rparr>]
   \<and> map Version (projr (ListVersions exExtern (exStorage True) 7 0
        (snd (SaveRule exExtern (exStorage True) 200 7 ''v2''
          (snd (SaveRule exExtern (exStorage True) 100 7 ''v1'' [])))))) = [2, 4]"
  by code_simp

subsection \<open>Paths\<close>

lemma splitOn_not_Nil [simp]: "splitOn d s \<noteq> []"
  by (induction s) (auto split: list.splits)

lemma splitOn_append:
  "splitOn d (a @ d # b) = splitOn d a @ splitOn d b"
  by (induction a) (auto split: list.splits)

lemma splitOn_no_sep: "d \<notin> set s \<Longrightarrow> splitOn d s = [s]"
  by (induction s) auto

lemma components_append:
  "components (a @ CHR ''/'' # b) = components a @ components b"
  by (simp add: components_def splitOn_append)

lemma components_name:
  "CHR ''/'' \<notin> set n \<Longrightarrow> n \<noteq> [] \<Longrightarrow> components n = [n]"
  by (simp add: components_def splitOn_no_sep)

lemma saveDir_butlast: "saveDir p = butlast p"
proof (cases "p = []")
  case True
  then show ?thesis by (simp add: saveDir_def)
next
  case False
  then have "length (drop (length p - 1) p) = 1"
    by (cases p) simp_all
  then show ?thesis
    by (simp add: saveDir_def butlast_conv_take)
qed

lemma digit_no_slash: "d < 10 \<Longrightarrow> digit d \<noteq> CHR ''/''"
proof -
  assume "d < 10"
  then have "d \<in> {0, 1, 2, 3, 4, 5, 6, 7, 8, 9}" by auto
  then show ?thesis by (auto simp: digit_def)
qed

lemma dec_nat_no_slash: "CHR ''/'' \<notin> set (dec_nat n)"
proof (induction n rule: dec_nat.induct)
  case (1 n)
  show ?case
  proof (cases "n < 10")
    case True
    then show ?thesis using digit_no_slash [of n] by (simp add: dec_nat.simps [of n])
  next
    case False
    then show ?thesis
      using 1 digit_no_slash [of "n mod 10"] by (simp add: dec_nat.simps [of n])
  qed
qed

lemma FormatInt_no_slash: "CHR ''/'' \<notin> set (FormatInt i)"
  by (simp add: FormatInt_def dec_nat_no_slash)

text \<open>The name of the file that a save writes, and the directory it lies in.\<close>

lemma savePath_split:
  "\<exists>pre. savePath x s now promID = pre @ CHR ''/'' # saveName x s now"
  by (cases "baseDir s = []")
     (auto simp: savePath_def saveName_def getHistoryPath_def getCurrentPath_def Join_def)

subsection \<open>Creating directories and writing files\<close>

lemma node_at_update:
  "p \<noteq> [] \<Longrightarrow> node_at (AList.update p n fs) q = (if q = p then Some n else node_at fs q)"
  by (simp add: node_at_def update_conv')

lemma mkdirAll_from_ok:
  assumes "\<And>q b t r. prefix q (pre @ cs) \<Longrightarrow> length pre < length q
             \<Longrightarrow> node_at fs q \<noteq> Some (File b t r)"
  shows "\<exists>fs1. mkdirAll_from now fs pre cs = Inr fs1
           \<and> (\<forall>q. prefix q (pre @ cs) \<and> length pre < length q
                 \<longrightarrow> (\<exists>t. node_at fs1 q = Some (Dir t)))
           \<and> (\<forall>q. \<not> (prefix q (pre @ cs) \<and> length pre < length q)
                 \<longrightarrow> node_at fs1 q = node_at fs q)"
  using assms
proof (induction cs arbitrary: pre fs)
  case Nil
  then show ?case by (auto dest: prefix_length_le)
next
  case (Cons c cs)
  let ?p = "pre @ [c]"
  have pp: "prefix ?p (pre @ c # cs)" "length pre < length ?p" by simp_all
  have nofile: "\<And>b t r. node_at fs ?p \<noteq> Some (File b t r)"
    using Cons.prems [OF pp] .
  have longer: "\<And>q. prefix q (pre @ c # cs) \<and> length pre < length q
        \<longleftrightarrow> q = ?p \<or> (prefix q (?p @ cs) \<and> length ?p < length q)"
  proof -
    fix q
    show "prefix q (pre @ c # cs) \<and> length pre < length q
        \<longleftrightarrow> q = ?p \<or> (prefix q (?p @ cs) \<and> length ?p < length q)"
    proof
      assume a: "prefix q (pre @ c # cs) \<and> length pre < length q"
      then obtain z where z: "pre @ c # cs = q @ z" by (auto simp: prefix_def)
      show "q = ?p \<or> (prefix q (?p @ cs) \<and> length ?p < length q)"
      proof (cases "length q = length ?p")
        case True
        then have "q = ?p" using z by (metis append.assoc append_Cons append_Nil append_eq_append_conv)
        then show ?thesis by simp
      next
        case False
        then show ?thesis using a by auto
      qed
    next
      assume "q = ?p \<or> (prefix q (?p @ cs) \<and> length ?p < length q)"
      then show "prefix q (pre @ c # cs) \<and> length pre < length q" by auto
    qed
  qed
  show ?case
  proof (cases "node_at fs ?p")
    case None
    let ?fs = "AList.update ?p (Dir now) fs"
    have at: "\<And>q. node_at ?fs q = (if q = ?p then Some (Dir now) else node_at fs q)"
      by (rule node_at_update) simp
    have "\<And>q b t r. prefix q (?p @ cs) \<Longrightarrow> length ?p < length q
             \<Longrightarrow> node_at ?fs q \<noteq> Some (File b t r)"
      using Cons.prems by (auto simp: at)
    from Cons.IH [of ?p ?fs, OF this]
    obtain fs1 where r: "mkdirAll_from now ?fs ?p cs = Inr fs1"
      and d: "\<forall>q. prefix q (?p @ cs) \<and> length ?p < length q \<longrightarrow> (\<exists>t. node_at fs1 q = Some (Dir t))"
      and u: "\<forall>q. \<not> (prefix q (?p @ cs) \<and> length ?p < length q) \<longrightarrow> node_at fs1 q = node_at ?fs q"
      by blast
    have "mkdirAll_from now fs pre (c # cs) = Inr fs1"
      using None r by simp
    moreover have "\<forall>q. prefix q (pre @ c # cs) \<and> length pre < length q
                 \<longrightarrow> (\<exists>t. node_at fs1 q = Some (Dir t))"
    proof (intro allI impI)
      fix q assume "prefix q (pre @ c # cs) \<and> length pre < length q"
      then consider "q = ?p" | "prefix q (?p @ cs) \<and> length ?p < length q"
        using longer [of q] by blast
      then show "\<exists>t. node_at fs1 q = Some (Dir t)"
      proof cases
        case 1
        then have "node_at fs1 q = node_at ?fs q" using u by auto
        then show ?thesis using 1 at by simp
      next
        case 2
        then show ?thesis using d by blast
      qed
    qed
    moreover have "\<forall>q. \<not> (prefix q (pre @ c # cs) \<and> length pre < length q)
                 \<longrightarrow> node_at fs1 q = node_at fs q"
    proof (intro allI impI)
      fix q assume n: "\<not> (prefix q (pre @ c # cs) \<and> length pre < length q)"
      then have "q \<noteq> ?p" and "\<not> (prefix q (?p @ cs) \<and> length ?p < length q)"
        using longer [of q] by blast+
      then show "node_at fs1 q = node_at fs q" using u at by simp
    qed
    ultimately show ?thesis by blast
  next
    case (Some n)
    then obtain t where n: "n = Dir t" using nofile by (cases n) auto
    have "\<And>q b t r. prefix q (?p @ cs) \<Longrightarrow> length ?p < length q
             \<Longrightarrow> node_at fs q \<noteq> Some (File b t r)"
      using Cons.prems by auto
    from Cons.IH [of ?p fs, OF this]
    obtain fs1 where r: "mkdirAll_from now fs ?p cs = Inr fs1"
      and d: "\<forall>q. prefix q (?p @ cs) \<and> length ?p < length q \<longrightarrow> (\<exists>t. node_at fs1 q = Some (Dir t))"
      and u: "\<forall>q. \<not> (prefix q (?p @ cs) \<and> length ?p < length q) \<longrightarrow> node_at fs1 q = node_at fs q"
      by blast
    have "mkdirAll_from now fs pre (c # cs) = Inr fs1"
      using Some n r by simp
    moreover have "\<forall>q. prefix q (pre @ c # cs) \<and> length pre < length q
                 \<longrightarrow> (\<exists>t. node_at fs1 q = Some (Dir t))"
    proof (intro allI impI)
      fix q assume "prefix q (pre @ c # cs) \<and> length pre < length q"
      then consider "q = ?p" | "prefix q (?p @ cs) \<and> length ?p < length q"
        using longer [of q] by blast
      then show "\<exists>t. node_at fs1 q = Some (Dir t)"
      proof cases
        case 1
        then have "node_at fs1 q = node_at fs q" using u by auto
        then show ?thesis using 1 Some n by simp
      next
        case 2
        then show ?thesis using d by blast
      qed
    qed
    moreover have "\<forall>q. \<not> (prefix q (pre @ c # cs) \<and> length pre < length q)
                 \<longrightarrow> node_at fs1 q = node_at fs q"
    proof (intro allI impI)
      fix q assume n: "\<not> (prefix q (pre @ c # cs) \<and> length pre < length q)"
      then have "\<not> (prefix q (?p @ cs) \<and> length ?p < length q)"
        using longer [of q] by blast
      then show "node_at fs1 q = node_at fs q" using u by simp
    qed
    ultimately show ?thesis by blast
  qed
qed

lemma resolve_dirs:
  assumes "\<And>q. prefix q (pre @ cs) \<Longrightarrow> length pre \<le> length q
             \<Longrightarrow> \<exists>t. node_at fs q = Some (Dir t)"
  shows "\<exists>t. resolve fs pre cs = Inr (Dir t)"
  using assms
proof (induction cs arbitrary: pre)
  case Nil
  then obtain t where "node_at fs pre = Some (Dir t)" by force
  then show ?case by simp
next
  case (Cons c cs)
  obtain t where t: "node_at fs pre = Some (Dir t)"
    using Cons.prems [of pre] by auto
  have "\<exists>t. resolve fs (pre @ [c]) cs = Inr (Dir t)"
    using Cons.prems by (intro Cons.IH) auto
  with t show ?case by simp
qed

lemma saveName_facts:
  assumes "enableHistory s \<longrightarrow> CHR ''/'' \<notin> set (FormatStamp x now)"
  shows "CHR ''/'' \<notin> set (saveName x s now)" "CHR ''/'' \<notin> set (butlast (saveName x s now))"
    "saveName x s now \<noteq> []" "butlast (saveName x s now) \<noteq> []"
    "butlast (saveName x s now) \<noteq> saveName x s now"
  using assms by (auto simp: saveName_def butlast_append)

text \<open>
  Claim C9. Provided that the time stamp has no slash, that no file stands where a
  directory is to be made, and that the target is not itself a directory: the directory
  that a save makes is the path of the file less its last character; its last component
  is the name of the file less its last character, beside the file; the save returns the
  path; afterwards that directory is there, the directory of the file is there, being a
  proper prefix of it, and the file holds the bytes.
\<close>

theorem save_rule_makes_spurious_directory:
  assumes ts: "enableHistory s \<longrightarrow> CHR ''/'' \<notin> set (FormatStamp x now)"
    and nofile: "\<And>q b t r. prefix q (components (butlast (savePath x s now promID)))
                   \<Longrightarrow> node_at fs q \<noteq> Some (File b t r)"
    and nodir: "\<And>t. node_at fs (components (savePath x s now promID)) \<noteq> Some (Dir t)"
  shows "let path = savePath x s now promID;
             fs' = snd (SaveRule x s now promID bytes fs)
         in saveDir path = butlast path
          \<and> components path = butlast (components path) @ [saveName x s now]
          \<and> components (saveDir path) = butlast (components path) @ [butlast (saveName x s now)]
          \<and> fst (SaveRule x s now promID bytes fs) = Inr path
          \<and> (\<exists>t. node_at fs' (components (saveDir path)) = Some (Dir t))
          \<and> strict_prefix (butlast (components path)) (components (saveDir path))
          \<and> (\<exists>t. node_at fs' (butlast (components path)) = Some (Dir t))
          \<and> (\<exists>r. node_at fs' (components path) = Some (File bytes now r))"
proof -
  let ?path = "savePath x s now promID"
  let ?name = "saveName x s now"
  note nm = saveName_facts [OF ts]
  obtain pre where path: "?path = pre @ CHR ''/'' # ?name"
    using savePath_split by blast
  let ?cp = "components pre"
  let ?cs = "?cp @ [?name]"
  let ?ds = "?cp @ [butlast ?name]"
  have bl: "butlast ?path = pre @ CHR ''/'' # butlast ?name"
    using nm(3) by (simp add: path butlast_append)
  have cs: "components ?path = ?cs"
    using nm by (simp add: path components_append components_name)
  have ds: "components (butlast ?path) = ?ds"
    using nm by (simp add: bl components_append components_name)
  have sd: "saveDir ?path = butlast ?path" by (rule saveDir_butlast)
  have ne: "?path \<noteq> []" "butlast ?path \<noteq> []"
    using bl by (simp_all add: path)
  have "\<And>q b t r. prefix q ([] @ ?ds) \<Longrightarrow> length ([] :: path) < length q
           \<Longrightarrow> node_at fs q \<noteq> Some (File b t r)"
    using nofile ds by simp
  from mkdirAll_from_ok [of "[]" ?ds fs now, OF this]
  obtain fs1 where mk: "mkdirAll_from now fs [] ?ds = Inr fs1"
    and dirs: "\<And>q. prefix q ?ds \<Longrightarrow> q \<noteq> [] \<Longrightarrow> \<exists>t. node_at fs1 q = Some (Dir t)"
    and same: "\<And>q. \<not> prefix q ?ds \<Longrightarrow> node_at fs1 q = node_at fs q"
    by auto
  have M: "MkdirAll now (saveDir ?path) fs = Inr fs1"
    using mk ne by (simp add: MkdirAll_def sd ds)
  have notpre: "\<not> prefix ?cs ?ds"
    using nm(5) by (auto simp: prefix_def)
  have tgt: "node_at fs1 ?cs = node_at fs ?cs"
    using same [OF notpre] .
  have "\<And>q. prefix q ([] @ ?cp) \<Longrightarrow> length ([] :: path) \<le> length q
          \<Longrightarrow> \<exists>t. node_at fs1 q = Some (Dir t)"
  proof -
    fix q assume q: "prefix q ([] @ ?cp)"
    show "\<exists>t. node_at fs1 q = Some (Dir t)"
    proof (cases "q = []")
      case True
      then show ?thesis by (simp add: node_at_def)
    next
      case False
      moreover have "prefix q ?ds" using q by simp
      ultimately show ?thesis using dirs by blast
    qed
  qed
  from resolve_dirs [of "[]" ?cp fs1, OF this]
  obtain tp where par: "resolve fs1 [] ?cp = Inr (Dir tp)" by auto
  define r where "r = (case node_at fs ?cs of Some (File b t r') \<Rightarrow> r' | _ \<Rightarrow> True)"
  have W: "WriteFile now ?path bytes fs1 = Inr (AList.update ?cs (File bytes now r) fs1)"
  proof (cases "node_at fs ?cs")
    case None
    then show ?thesis using par tgt by (simp add: WriteFile_def cs r_def)
  next
    case (Some n)
    then obtain b t r' where "n = File b t r'"
      using nodir [unfolded cs] by (cases n) auto
    then show ?thesis using Some par tgt by (simp add: WriteFile_def cs r_def)
  qed
  let ?fs2 = "AList.update ?cs (File bytes now r) fs1"
  have S: "SaveRule x s now promID bytes fs = (Inr ?path, ?fs2)"
    using ne M W by (simp add: SaveRule_def Let_def)
  have at2: "\<And>q. node_at ?fs2 q = (if q = ?cs then Some (File bytes now r) else node_at fs1 q)"
    by (rule node_at_update) simp
  have d2: "\<exists>t. node_at ?fs2 ?ds = Some (Dir t)"
    using dirs [of ?ds] nm(5) by (simp add: at2)
  have p2: "\<exists>t. node_at ?fs2 ?cp = Some (Dir t)"
  proof (cases "?cp = []")
    case True
    then show ?thesis by (simp add: node_at_def)
  next
    case False
    then show ?thesis using dirs [of ?cp] by (simp add: at2)
  qed
  have f2: "\<exists>r. node_at ?fs2 ?cs = Some (File bytes now r)"
    by (simp add: at2)
  show ?thesis
    unfolding Let_def S fst_conv snd_conv sd cs ds
    using d2 p2 f2 by (simp add: strict_prefix_def)
qed

theorem save_rule_makes_spurious_directory_witness:
  "savePath exExtern (exStorage False) 100 7 = ''r/prom_7/current.yml''
   \<and> saveDir (savePath exExtern (exStorage False) 100 7) = ''r/prom_7/current.ym''
   \<and> fst (SaveRule exExtern (exStorage False) 100 7 ''groups'' []) = Inr ''r/prom_7/current.yml''
   \<and> (\<exists>t. node_at (snd (SaveRule exExtern (exStorage False) 100 7 ''groups'' []))
              [''r'', ''prom_7'', ''current.ym''] = Some (Dir t))
   \<and> (\<exists>r. node_at (snd (SaveRule exExtern (exStorage False) 100 7 ''groups'' []))
              [''r'', ''prom_7'', ''current.yml''] = Some (File ''groups'' 100 r))"
proof -
  have p: "savePath exExtern (exStorage False) 100 7 = ''r/prom_7/current.yml''"
    by code_simp
  have c: "components ''r/prom_7/current.yml'' = [''r'', ''prom_7'', ''current.yml'']"
    "components ''r/prom_7/current.ym'' = [''r'', ''prom_7'', ''current.ym'']"
    by code_simp+
  have h: "enableHistory (exStorage False) \<longrightarrow> CHR ''/'' \<notin> set (FormatStamp exExtern 100)"
    by (simp add: exStorage_def)
  have nf: "\<And>q b t r. prefix q (components (butlast (savePath exExtern (exStorage False) 100 7)))
                   \<Longrightarrow> node_at [] q \<noteq> Some (File b t r)"
    by (simp add: node_at_def)
  have nd: "\<And>t. node_at [] (components (savePath exExtern (exStorage False) 100 7)) \<noteq> Some (Dir t)"
    by (simp add: p c node_at_def)
  have n: "saveName exExtern (exStorage False) 100 = ''current.yml''"
    by (simp add: saveName_def exStorage_def)
  show ?thesis
    using save_rule_makes_spurious_directory [OF h nf nd, of "''groups''"]
    by (simp add: Let_def p c n saveDir_butlast)
qed

subsection \<open>The reconciliation of the managers\<close>

lemma sweepManagers_Some:
  "sweepManagers ms groups k = Some m \<longleftrightarrow> ms k = Some m \<and> \<not> shouldDelete m groups"
  by (auto simp: sweepManagers_def split: option.splits)

lemma shouldDelete_iff:
  "prom_URL (m_prom m) \<noteq> [] \<Longrightarrow>
   shouldDelete m groups \<longleftrightarrow>
     \<not> (\<exists>g \<in> set groups. prom_ID (pr_Prom g) = prom_ID (m_prom m)
                         \<and> prom_URL (pr_Prom g) = prom_URL (m_prom m))"
  by (auto simp: shouldDelete_def list_ex_iff)

lemma wf_sweepManagers: "wf_managers ms \<Longrightarrow> wf_managers (sweepManagers ms groups)"
  unfolding wf_managers_def sweepManagers_Some by blast

lemma dom_sweepManagers:
  assumes "wf_managers ms"
  shows "dom (sweepManagers ms groups) \<subseteq> addressed groups"
proof
  fix k assume "k \<in> dom (sweepManagers ms groups)"
  then obtain m where m: "ms k = Some m" "\<not> shouldDelete m groups"
    by (auto simp: sweepManagers_Some)
  then have k: "prom_ID (m_prom m) = k" "prom_URL (m_prom m) \<noteq> []"
    using assms by (auto simp: wf_managers_def)
  then obtain g where "g \<in> set groups" "prom_ID (pr_Prom g) = k" "prom_URL (pr_Prom g) \<noteq> []"
    using m(2) by (auto simp: shouldDelete_def list_ex_iff)
  then show "k \<in> addressed groups"
    by (force simp: addressed_def)
qed

lemma NewManager_prom:
  "NewManager x cfg st prom = Inr m \<Longrightarrow> m_prom m = prom"
  by (auto simp: NewManager_def split: option.splits)

lemma NewManager_ok:
  "api_NewClient x (prom_URL prom) = None \<Longrightarrow> \<exists>m. NewManager x cfg st prom = Inr m"
  by (simp add: NewManager_def)

lemma updateOrCreate_empty:
  "prom_URL (pr_Prom g) = [] \<Longrightarrow> updateOrCreate x cfg st now g mw = mw"
  by (simp add: updateOrCreate_def)

lemma updateOrCreate_wf:
  assumes "wf_managers (fst mw)"
  shows "wf_managers (fst (updateOrCreate x cfg st now g mw))"
proof (cases "prom_URL (pr_Prom g) = []")
  case True
  with assms show ?thesis by (simp add: updateOrCreate_empty)
next
  case url: False
  show ?thesis
  proof (cases "fst mw (prom_ID (pr_Prom g))")
    case (Some m)
    then have "m_prom m = m_prom m \<and> prom_ID (m_prom m) = prom_ID (pr_Prom g)
        \<and> prom_URL (m_prom m) \<noteq> []"
      using assms by (simp add: wf_managers_def)
    with Some url assms show ?thesis
      by (simp add: updateOrCreate_def case_prod_beta wf_managers_def Manager_Update_prom)
  next
    case None
    show ?thesis
    proof (cases "NewManager x cfg st (pr_Prom g)")
      case (Inl e)
      with None url assms show ?thesis by (simp add: updateOrCreate_def)
    next
      case (Inr m)
      then have "m_prom m = pr_Prom g" by (rule NewManager_prom)
      with Inr None url assms show ?thesis
        by (simp add: updateOrCreate_def case_prod_beta wf_managers_def Manager_Update_prom)
    qed
  qed
qed

lemma updateOrCreate_dom:
  assumes "prom_URL (pr_Prom g) \<noteq> [] \<Longrightarrow> prom_ID (pr_Prom g) \<notin> dom (fst mw)
             \<Longrightarrow> api_NewClient x (prom_URL (pr_Prom g)) = None"
  shows "dom (fst (updateOrCreate x cfg st now g mw)) = dom (fst mw) \<union> addressed [g]"
proof (cases "prom_URL (pr_Prom g) = []")
  case True
  then show ?thesis by (auto simp: updateOrCreate_empty addressed_def)
next
  case url: False
  then have a: "addressed [g] = {prom_ID (pr_Prom g)}"
    by (auto simp: addressed_def)
  show ?thesis
  proof (cases "fst mw (prom_ID (pr_Prom g))")
    case (Some m)
    with url show ?thesis
      by (auto simp: updateOrCreate_def case_prod_beta a)
  next
    case None
    then have "api_NewClient x (prom_URL (pr_Prom g)) = None"
      using assms url by (simp add: domIff)
    then obtain m where "NewManager x cfg st (pr_Prom g) = Inr m"
      using NewManager_ok by blast
    with None url show ?thesis
      by (auto simp: updateOrCreate_def case_prod_beta a)
  qed
qed

lemma addressed_Cons: "addressed (g # gs) = addressed [g] \<union> addressed gs"
  by (auto simp: addressed_def)

lemma fold_updateOrCreate_dom:
  assumes "\<And>g. g \<in> set groups \<Longrightarrow> prom_URL (pr_Prom g) \<noteq> []
             \<Longrightarrow> prom_ID (pr_Prom g) \<notin> dom (fst mw)
             \<Longrightarrow> api_NewClient x (prom_URL (pr_Prom g)) = None"
  shows "dom (fst (fold (updateOrCreate x cfg st now) groups mw)) = dom (fst mw) \<union> addressed groups"
  using assms
proof (induction groups arbitrary: mw)
  case Nil
  then show ?case by (simp add: addressed_def)
next
  case (Cons g gs)
  have d: "dom (fst (updateOrCreate x cfg st now g mw)) = dom (fst mw) \<union> addressed [g]"
    using Cons.prems [of g] by (intro updateOrCreate_dom) simp_all
  have "dom (fst (fold (updateOrCreate x cfg st now) gs (updateOrCreate x cfg st now g mw)))
        = dom (fst (updateOrCreate x cfg st now g mw)) \<union> addressed gs"
  proof (rule Cons.IH)
    fix h assume "h \<in> set gs" "prom_URL (pr_Prom h) \<noteq> []"
      "prom_ID (pr_Prom h) \<notin> dom (fst (updateOrCreate x cfg st now g mw))"
    then show "api_NewClient x (prom_URL (pr_Prom h)) = None"
      using Cons.prems [of h] d by simp
  qed
  then show ?case
    using d addressed_Cons [of g gs] by (simp add: Un_assoc)
qed

lemma fold_updateOrCreate_wf:
  "wf_managers (fst mw) \<Longrightarrow> wf_managers (fst (fold (updateOrCreate x cfg st now) groups mw))"
  by (induction groups arbitrary: mw) (simp_all add: updateOrCreate_wf)

lemma Reloader_Update_fetched:
  "fetchPromRules rr pr = Inr groups \<Longrightarrow>
   Reloader_Update x now rr pr r w =
     (None,
      r\<lparr>r_managers := fst (fold (updateOrCreate x (r_config r) (r_storage r) now) groups
                             (sweepManagers (r_managers r) groups, w))\<rparr>,
      snd (fold (updateOrCreate x (r_config r) (r_storage r) now) groups
             (sweepManagers (r_managers r) groups, w)))"
  by (simp add: Reloader_Update_def case_prod_beta)

lemma Reloader_Update_fetch_failed:
  "fetchPromRules rr pr = Inl err \<Longrightarrow>
   Reloader_Update x now rr pr r w = (Some (''failed to fetch rules: '' @ err), r, w)"
  by (simp add: Reloader_Update_def)

text \<open>
  The managers are well keyed from the start and after every update, whatever the gateway
  answers and whether or not the clients can be built; so they are at every update that
  the loop makes.
\<close>

lemma wf_managers_NewReloader: "wf_managers (r_managers (NewReloader cfg st))"
  by (simp add: NewReloader_def wf_managers_def)

lemma Reloader_Update_wf:
  assumes "wf_managers (r_managers r)"
  shows "wf_managers (r_managers (fst (snd (Reloader_Update x now rr pr r w))))"
proof (cases "fetchPromRules rr pr")
  case (Inl err)
  with assms show ?thesis by (simp add: Reloader_Update_fetch_failed)
next
  case (Inr groups)
  show ?thesis
    using fold_updateOrCreate_wf [of "(sweepManagers (r_managers r) groups, w)" x "r_config r"
        "r_storage r" now groups] wf_sweepManagers [OF assms, of groups]
    by (simp add: Reloader_Update_fetched [OF Inr])
qed

lemma loopEvents_wf:
  "wf_managers (r_managers r) \<Longrightarrow> wf_managers (r_managers (fst (loopEvents x evs r w)))"
proof (induction evs arbitrary: r w)
  case Nil
  then show ?case by simp
next
  case (Cons ev evs)
  show ?case
  proof (cases ev)
    case Done
    with Cons.prems show ?thesis by simp
  next
    case (Tick now rr pr)
    obtain err r' w' where u: "Reloader_Update x now rr pr r w = (err, r', w')"
      by (cases "Reloader_Update x now rr pr r w")
    have "wf_managers (r_managers r')"
      using Reloader_Update_wf [OF Cons.prems, of x now rr pr w] u by simp
    then show ?thesis
      using Cons.prems Tick u Cons.IH [of r'] by (cases err) simp_all
  qed
qed

lemma Loop_wf:
  assumes "wf_managers (r_managers r)"
  shows "wf_managers (r_managers (fst (Loop x now rr pr evs r w)))"
proof -
  obtain err r' w' where u: "Reloader_Update x now rr pr r w = (err, r', w')"
    by (cases "Reloader_Update x now rr pr r w")
  have "wf_managers (r_managers r')"
    using Reloader_Update_wf [OF assms, of x now rr pr w] u by simp
  then show ?thesis
    using u loopEvents_wf [of r' x evs w'] by (simp add: Loop_def)
qed

text \<open>
  Claim C3. When the fetch succeeds, the managers are well keyed, and the client can be
  built for every group with an address whose id has no manager left after the sweep:
  the update returns no error; the ids of the managers after it are exactly the ids of
  the groups with an address; the managers are well keyed again, so none has an empty
  address; and the sweep drops a manager if and only if no group has both its id and its
  address.
\<close>

theorem reconcile_live_managers:
  assumes "fetchPromRules rr pr = Inr groups"
    and "wf_managers (r_managers r)"
    and "\<And>g. g \<in> set groups \<Longrightarrow> prom_URL (pr_Prom g) \<noteq> []
           \<Longrightarrow> prom_ID (pr_Prom g) \<notin> dom (sweepManagers (r_managers r) groups)
           \<Longrightarrow> api_NewClient x (prom_URL (pr_Prom g)) = None"
  shows "fst (Reloader_Update x now rr pr r w) = None
    \<and> dom (r_managers (fst (snd (Reloader_Update x now rr pr r w)))) = addressed groups
    \<and> wf_managers (r_managers (fst (snd (Reloader_Update x now rr pr r w))))
    \<and> (\<forall>k m. r_managers r k = Some m \<longrightarrow>
          (sweepManagers (r_managers r) groups k = None) =
          (\<not> (\<exists>g \<in> set groups. prom_ID (pr_Prom g) = prom_ID (m_prom m)
                               \<and> prom_URL (pr_Prom g) = prom_URL (m_prom m))))"
proof -
  let ?ms = "sweepManagers (r_managers r) groups"
  let ?f = "fold (updateOrCreate x (r_config r) (r_storage r) now) groups (?ms, w)"
  have d: "dom (fst ?f) = dom ?ms \<union> addressed groups"
    using fold_updateOrCreate_dom [of groups "(?ms, w)" x "r_config r" "r_storage r" now] assms(3)
    by simp
  have sub: "dom ?ms \<subseteq> addressed groups"
    using assms(2) by (rule dom_sweepManagers)
  have wf: "wf_managers (fst ?f)"
    using fold_updateOrCreate_wf [of "(?ms, w)" x "r_config r" "r_storage r" now groups]
      wf_sweepManagers [OF assms(2), of groups]
    by simp
  have sw: "\<And>k m. r_managers r k = Some m \<Longrightarrow>
          (?ms k = None) =
          (\<not> (\<exists>g \<in> set groups. prom_ID (pr_Prom g) = prom_ID (m_prom m)
                               \<and> prom_URL (pr_Prom g) = prom_URL (m_prom m)))"
  proof -
    fix k m assume m: "r_managers r k = Some m"
    then have "prom_URL (m_prom m) \<noteq> []"
      using assms(2) by (auto simp: wf_managers_def)
    then have "shouldDelete m groups \<longleftrightarrow>
      \<not> (\<exists>g \<in> set groups. prom_ID (pr_Prom g) = prom_ID (m_prom m)
                         \<and> prom_URL (pr_Prom g) = prom_URL (m_prom m))"
      by (rule shouldDelete_iff)
    then show "(?ms k = None) =
          (\<not> (\<exists>g \<in> set groups. prom_ID (pr_Prom g) = prom_ID (m_prom m)
                               \<and> prom_URL (pr_Prom g) = prom_URL (m_prom m)))"
      using m by (simp add: sweepManagers_def)
  qed
  show ?thesis
    using d sub wf sw by (simp add: Reloader_Update_fetched [OF assms(1)] Un_absorb1)
qed

theorem reconcile_live_managers_witness:
  "fetchPromRules (Decoded 0 [] [exGatewayRule 1 7 [], exGatewayRule 2 8 []])
       (Decoded 0 [] [\<lparr>prom_ID = 7, prom_URL = ''http://b''\<rparr>]) =
     Inr [\<lparr>pr_Prom = \<lparr>prom_ID = 7, prom_URL = ''http://b''\<rparr>, pr_Rules = [exGatewayRule 1 7 []]\<rparr>,
          \<lparr>pr_Prom = \<lparr>prom_ID = 8, prom_URL = []\<rparr>, pr_Rules = [exGatewayRule 2 8 []]\<rparr>]
   \<and> wf_managers (r_managers (exReloader [7 \<mapsto> exManager ''http://a'' []]))
   \<and> dom (r_managers (fst (snd (Reloader_Update exExtern 100
        (Decoded 0 [] [exGatewayRule 1 7 [], exGatewayRule 2 8 []])
        (Decoded 0 [] [\<lparr>prom_ID = 7, prom_URL = ''http://b''\<rparr>])
        (exReloader [7 \<mapsto> exManager ''http://a'' []]) (exWorld [] []))))) = {7}
   \<and> sweepManagers (r_managers (exReloader [7 \<mapsto> exManager ''http://a'' []]))
        [\<lparr>pr_Prom = \<lparr>prom_ID = 7, prom_URL = ''http://b''\<rparr>, pr_Rules = [exGatewayRule 1 7 []]\<rparr>,
         \<lparr>pr_Prom = \<lparr>prom_ID = 8, prom_URL = []\<rparr>, pr_Rules = [exGatewayRule 2 8 []]\<rparr>] 7 = None"
proof -
  let ?groups = "[\<lparr>pr_Prom = \<lparr>prom_ID = 7, prom_URL = ''http://b''\<rparr>, pr_Rules = [exGatewayRule 1 7 []]\<rparr>,
          \<lparr>pr_Prom = \<lparr>prom_ID = 8, prom_URL = []\<rparr>, pr_Rules = [exGatewayRule 2 8 []]\<rparr>]"
  let ?r = "exReloader [7 \<mapsto> exManager ''http://a'' []]"
  have f: "fetchPromRules (Decoded 0 [] [exGatewayRule 1 7 [], exGatewayRule 2 8 []])
       (Decoded 0 [] [\<lparr>prom_ID = 7, prom_URL = ''http://b''\<rparr>]) = Inr ?groups"
    by (simp add: fetchPromRules_def fetchData_def PromRules_of_def fillURL_def exGatewayRule_def)
  have wf: "wf_managers (r_managers ?r)"
    by (simp add: wf_managers_def exReloader_def exManager_def)
  have c: "\<And>g. g \<in> set ?groups \<Longrightarrow> prom_URL (pr_Prom g) \<noteq> []
           \<Longrightarrow> prom_ID (pr_Prom g) \<notin> dom (sweepManagers (r_managers ?r) ?groups)
           \<Longrightarrow> api_NewClient exExtern (prom_URL (pr_Prom g)) = None"
    by (simp add: exExtern_def)
  have s: "{g \<in> set ?groups. prom_URL (pr_Prom g) \<noteq> []} =
      {\<lparr>pr_Prom = \<lparr>prom_ID = 7, prom_URL = ''http://b''\<rparr>, pr_Rules = [exGatewayRule 1 7 []]\<rparr>}"
    by auto
  have a: "addressed ?groups = {7}"
    unfolding addressed_def s by simp
  have m: "r_managers ?r 7 = Some (exManager ''http://a'' [])"
    by (simp add: exReloader_def)
  have p: "m_prom (exManager ''http://a'' []) = \<lparr>prom_ID = 7, prom_URL = ''http://a''\<rparr>"
    by (simp add: exManager_def)
  show ?thesis
    using f wf m reconcile_live_managers [OF f wf c, of 100 "exWorld [] []"]
    by (simp add: a p)
qed

end
